theory Spec2Isabelle
  imports Complex_Main "HOL-Library.Sublist" "HOL-Library.Log_Nat"
begin

section \<open>Configuration values\<close>

text \<open>
  The configuration handed to the validator (\<open>config.lowercase()\<close>) is a plain
  JavaScript value. \<open>JUndefined\<close> is what reading an absent property gives.
  A number of the configuration is a finite double, kept as the rational it denotes
  (the values NaN and infinity do not occur in a configuration of this model).
  An object is its list of own properties; \<open>get\<close> reads the first entry of a key.
\<close>

datatype json =
    JUndefined
  | JNull
  | JBool bool
  | JNum rat
  | JStr string
  | JArr "json list"
  | JObj "(string \<times> json) list"

fun get :: "(string \<times> json) list \<Rightarrow> string \<Rightarrow> json" where
  "get [] k = JUndefined"
| "get ((k', v) # kvs) k = (if k' = k then v else get kvs k)"

section \<open>The functions of \<open>schemas/index.ts\<close>\<close>

subsection \<open>String and number helpers of the language\<close>

text \<open>\<open>s.includes(t)\<close>: \<open>t\<close> occurs in \<open>s\<close> as a contiguous substring.\<close>

fun str_includes :: "string \<Rightarrow> string \<Rightarrow> bool" where
  "str_includes [] t = (t = [])"
| "str_includes (c # cs) t = (prefix t (c # cs) \<or> str_includes cs t)"

text \<open>
  \<open>x % y\<close> on numbers: the remainder of the division truncated towards zero
  (the sign is that of \<open>x\<close>).
\<close>

definition js_rem :: "rat \<Rightarrow> rat \<Rightarrow> rat" where
  "js_rem x y =
     (let q = x / y
      in x - y * of_int (if 0 \<le> q then \<lfloor>q\<rfloor> else \<lceil>q\<rceil>))"

text \<open>
  \<open>x * y\<close> on numbers is the IEEE 754 binary64 product: the exact product rounded to
  the nearest double, ties to the even significand, and to an infinity from
  \<open>2^1024 - 2^970\<close> on. A double has 53 significant bits above the quantum
  \<open>2^(e - 52)\<close>, where \<open>2^e \<le> |x| < 2^(e + 1)\<close>, and the quantum is never below
  \<open>2^(-1074)\<close> (subnormal numbers). \<open>size < b\<close> and \<open>size > b\<close> compare the
  rounded product, finite or infinite, with a finite bound.
\<close>

definition pow2 :: "int \<Rightarrow> rat" where
  "pow2 k = (if 0 \<le> k then 2 ^ nat k else 1 / 2 ^ nat (- k))"

definition exponent :: "rat \<Rightarrow> int" where
  "exponent x = (if 1 \<le> x then bitlen \<lfloor>x\<rfloor> - 1 else - bitlen (\<lceil>1 / x\<rceil> - 1))"

definition round_half_even :: "rat \<Rightarrow> int" where
  "round_half_even y =
     (let f = \<lfloor>y\<rfloor>; d = y - of_int f
      in if d < 1 / 2 then f else if 1 / 2 < d then f + 1 else if even f then f else f + 1)"

definition round_magnitude :: "rat \<Rightarrow> rat" where
  "round_magnitude x =
     (let q = pow2 (max (exponent x - 52) (- 1074))
      in q * of_int (round_half_even (x / q)))"

datatype js_number = Finite rat | PosInfinity | NegInfinity

definition to_double :: "rat \<Rightarrow> js_number" where
  "to_double x =
     (if x = 0 then Finite 0
      else if 0 < x
      then (let r = round_magnitude x in if 2 ^ 1024 \<le> r then PosInfinity else Finite r)
      else (let r = round_magnitude (- x) in if 2 ^ 1024 \<le> r then NegInfinity else Finite (- r)))"

definition js_mul :: "rat \<Rightarrow> rat \<Rightarrow> js_number" where
  "js_mul x y = to_double (x * y)"

fun js_less :: "js_number \<Rightarrow> rat \<Rightarrow> bool" where
  "js_less (Finite r) b = (r < b)"
| "js_less PosInfinity b = False"
| "js_less NegInfinity b = True"

fun js_greater :: "js_number \<Rightarrow> rat \<Rightarrow> bool" where
  "js_greater (Finite r) b = (r > b)"
| "js_greater PosInfinity b = True"
| "js_greater NegInfinity b = False"

text \<open>\<open>String(n)\<close> for a non-negative integer: its decimal digits.\<close>

fun show_nat :: "nat \<Rightarrow> string" where
  "show_nat n =
     (if n < 10 then [char_of (48 + n)]
      else show_nat (n div 10) @ [char_of (48 + n mod 10)])"

definition show_int :: "int \<Rightarrow> string" where
  "show_int i = (if i < 0 then CHR ''-'' # show_nat (nat (- i)) else show_nat (nat i))"

text \<open>\<open>s.toLowerCase()\<close> on the ASCII letters; every other character is kept.\<close>

definition lower_char :: "char \<Rightarrow> char" where
  "lower_char c =
     (let n = (of_char c :: nat)
      in if 65 \<le> n \<and> n \<le> 90 then char_of (n + 32) else c)"

definition toLowerCase :: "string \<Rightarrow> string" where
  "toLowerCase s = map lower_char s"

subsection \<open>The two area predicates\<close>

record size_value =
  width :: rat
  height :: rat
  engine_id :: string

definition validateSizeFor768 :: "size_value \<Rightarrow> bool" where
  "validateSizeFor768 val =
     (let size = js_mul (width val) (height val)
      in \<not> (str_includes (engine_id val) ''768'' \<and>
              (js_less size 589824 \<or> js_greater size 1048576)))"

definition validateSizeForOtherEngines :: "size_value \<Rightarrow> bool" where
  "validateSizeForOtherEngines val =
     (let size = js_mul (width val) (height val)
      in \<not> (str_includes (engine_id val) ''768'' = False \<and>
              (js_less size 262144 \<or> js_greater size 1048576)))"

definition multiplesOf64 :: "size_value \<Rightarrow> bool" where
  "multiplesOf64 val = (js_rem (width val) 64 = 0 \<and> js_rem (height val) 64 = 0)"

section \<open>Schemas and their parser\<close>

text \<open>
  The schema of the source is a value built from the combinators of the zod library
  (version 3). The combinators that occur are a datatype here, and \<open>parse\<close> is the
  library's synchronous parser for them: it returns the status of the result
  (valid, dirty: issues were found but the value could still be read, aborted) and the
  issues it added, in order. An issue is the path of the value and a message of the
  library's English error map.
\<close>

datatype seg = Key string | Idx nat

record issue =
  path :: "seg list"
  message :: string

datatype status = Valid | Dirty | Aborted

datatype check = Min int | Max int

datatype zod_type =
    ZBoolean
  | ZString
  | ZNumber "check list"
  | ZEnum "string list"
  | ZLiteralFalse
  | ZArray zod_type "nat option"
  | ZObject "(string \<times> zod_type) list"
  | ZUnion "zod_type list"
  | ZNullish zod_type
  | ZRefine zod_type "json \<Rightarrow> bool" string

fun parsedType :: "json \<Rightarrow> string" where
  "parsedType JUndefined = ''undefined''"
| "parsedType JNull = ''null''"
| "parsedType (JBool b) = ''boolean''"
| "parsedType (JNum x) = ''number''"
| "parsedType (JStr s) = ''string''"
| "parsedType (JArr xs) = ''array''"
| "parsedType (JObj kvs) = ''object''"

definition quoted :: "string \<Rightarrow> string" where
  "quoted s = [CHR 0x27] @ s @ [CHR 0x27]"

fun join :: "string \<Rightarrow> string list \<Rightarrow> string" where
  "join sep [] = []"
| "join sep [s] = s"
| "join sep (s # t # ss) = s @ sep @ join sep (t # ss)"

definition joinValues :: "string list \<Rightarrow> string" where
  "joinValues vals = join '' | '' (map quoted vals)"

definition invalid_type :: "seg list \<Rightarrow> string \<Rightarrow> json \<Rightarrow> issue" where
  "invalid_type p expected v =
     \<lparr>path = p,
      message = (if v = JUndefined then ''Required''
                 else ''Expected '' @ expected @ '', received '' @ parsedType v)\<rparr>"

definition invalid_enum_value :: "seg list \<Rightarrow> string list \<Rightarrow> string \<Rightarrow> issue" where
  "invalid_enum_value p vals s =
     \<lparr>path = p,
      message = ''Invalid enum value. Expected '' @ joinValues vals @ '', received '' @ quoted s\<rparr>"

definition invalid_literal :: "seg list \<Rightarrow> issue" where
  "invalid_literal p = \<lparr>path = p, message = ''Invalid literal value, expected false''\<rparr>"

definition invalid_union :: "seg list \<Rightarrow> issue" where
  "invalid_union p = \<lparr>path = p, message = ''Invalid input''\<rparr>"

definition too_small_array :: "seg list \<Rightarrow> nat \<Rightarrow> issue" where
  "too_small_array p n =
     \<lparr>path = p, message = ''Array must contain at least '' @ show_nat n @ '' element(s)''\<rparr>"

fun check_issues :: "seg list \<Rightarrow> rat \<Rightarrow> check \<Rightarrow> issue list" where
  "check_issues p x (Min m) =
     (if x < of_int m
      then [\<lparr>path = p, message = ''Number must be greater than or equal to '' @ show_int m\<rparr>]
      else [])"
| "check_issues p x (Max m) =
     (if x > of_int m
      then [\<lparr>path = p, message = ''Number must be less than or equal to '' @ show_int m\<rparr>]
      else [])"

fun merge :: "status \<Rightarrow> status \<Rightarrow> status" where
  "merge Aborted t = Aborted"
| "merge s Aborted = Aborted"
| "merge Dirty t = Dirty"
| "merge s Dirty = Dirty"
| "merge Valid Valid = Valid"

definition dirty_if :: "issue list \<Rightarrow> status" where
  "dirty_if is = (if is = [] then Valid else Dirty)"

text \<open>
  \<open>parse_shape\<close> is the loop of an object schema over the keys of its shape: every
  key is parsed, whatever the others gave, and unknown keys of the value are ignored.
  \<open>parse_options\<close> is the loop of a union over its options: the first valid option
  wins and leaves no issue; otherwise the issues of the first dirty option are the
  union's; otherwise the union has the single issue \<open>Invalid input\<close> at its own path.
  A refinement runs its predicate unless the refined schema aborted.
\<close>

fun parse :: "zod_type \<Rightarrow> seg list \<Rightarrow> json \<Rightarrow> status \<times> issue list"
and parse_shape :: "(string \<times> zod_type) list \<Rightarrow> seg list \<Rightarrow> (string \<times> json) list \<Rightarrow> status \<times> issue list"
and parse_options :: "zod_type list \<Rightarrow> seg list \<Rightarrow> json \<Rightarrow> issue list option \<Rightarrow> status \<times> issue list"
where
  "parse ZBoolean p v =
     (case v of JBool b \<Rightarrow> (Valid, []) | _ \<Rightarrow> (Aborted, [invalid_type p ''boolean'' v]))"
| "parse ZString p v =
     (case v of JStr s \<Rightarrow> (Valid, []) | _ \<Rightarrow> (Aborted, [invalid_type p ''string'' v]))"
| "parse (ZNumber checks) p v =
     (case v of
        JNum x \<Rightarrow> (let is = concat (map (check_issues p x) checks) in (dirty_if is, is))
      | _ \<Rightarrow> (Aborted, [invalid_type p ''number'' v]))"
| "parse (ZEnum vals) p v =
     (case v of
        JStr s \<Rightarrow> (if s \<in> set vals then (Valid, [])
                   else (Aborted, [invalid_enum_value p vals s]))
      | _ \<Rightarrow> (Aborted, [invalid_type p (joinValues vals) v]))"
| "parse ZLiteralFalse p v =
     (if v = JBool False then (Valid, []) else (Aborted, [invalid_literal p]))"
| "parse (ZArray s minLength) p v =
     (case v of
        JArr xs \<Rightarrow>
          (let is = (case minLength of
                       Some n \<Rightarrow> if length xs < n then [too_small_array p n] else []
                     | None \<Rightarrow> []);
               rs = map (\<lambda>ix. parse s (p @ [Idx (fst ix)]) (snd ix)) (enumerate 0 xs)
           in (foldl merge (dirty_if is) (map fst rs), is @ concat (map snd rs)))
      | _ \<Rightarrow> (Aborted, [invalid_type p ''array'' v]))"
| "parse (ZObject shape) p v =
     (case v of
        JObj kvs \<Rightarrow> parse_shape shape p kvs
      | _ \<Rightarrow> (Aborted, [invalid_type p ''object'' v]))"
| "parse (ZUnion opts) p v = parse_options opts p v None"
| "parse (ZNullish s) p v =
     (if v = JUndefined \<or> v = JNull then (Valid, []) else parse s p v)"
| "parse (ZRefine s f msg) p v =
     (case parse s p v of
        (Aborted, is) \<Rightarrow> (Aborted, is)
      | (st, is) \<Rightarrow> if f v then (st, is) else (Dirty, is @ [\<lparr>path = p, message = msg\<rparr>]))"
| "parse_shape [] p kvs = (Valid, [])"
| "parse_shape (ks # shape) p kvs =
     (let r = parse (snd ks) (p @ [Key (fst ks)]) (get kvs (fst ks));
          rs = parse_shape shape p kvs
      in (merge (fst r) (fst rs), snd r @ snd rs))"
| "parse_options [] p v dirty =
     (case dirty of Some is \<Rightarrow> (Dirty, is) | None \<Rightarrow> (Aborted, [invalid_union p]))"
| "parse_options (s # opts) p v dirty =
     (case parse s p v of
        (Valid, is) \<Rightarrow> (Valid, [])
      | (Dirty, is) \<Rightarrow> parse_options opts p v (if dirty = None then Some is else dirty)
      | (Aborted, is) \<Rightarrow> parse_options opts p v dirty)"


subsection \<open>The schema\<close>

text \<open>
  The three refinements of the image parameters read \<open>width\<close>, \<open>height\<close> and
  \<open>engine_id\<close> of the parsed object. They run only when the object schema did not
  abort, and then the three properties are two numbers and a string
  (lemma \<open>image_object_size_value\<close> below), so the \<open>None\<close> case is never reached.
\<close>

definition as_size_value :: "json \<Rightarrow> size_value option" where
  "as_size_value v =
     (case v of
        JObj kvs \<Rightarrow>
          (case (get kvs ''width'', get kvs ''height'', get kvs ''engine_id'') of
             (JNum w, JNum h, JStr e) \<Rightarrow> Some \<lparr>width = w, height = h, engine_id = e\<rparr>
           | _ \<Rightarrow> None)
      | _ \<Rightarrow> None)"

definition on_size :: "(size_value \<Rightarrow> bool) \<Rightarrow> json \<Rightarrow> bool" where
  "on_size f v = (case as_size_value v of Some val \<Rightarrow> f val | None \<Rightarrow> True)"

definition log_levels :: "string list" where
  "log_levels =
     [''silent'', ''error'', ''warn'', ''info'', ''http'', ''verbose'', ''debug'', ''silly'']"

definition style_presets :: "string list" where
  "style_presets =
     [''3d-model'', ''analog-film'', ''anime'', ''cinematic'', ''comic-book'',
      ''digital-art'', ''enhance'', ''fantasy-art'', ''isometric'', ''line-art'',
      ''low-poly'', ''modeling-compound'', ''neon-punk'', ''origami'', ''photographic'',
      ''pixel-art'', ''tile-texture'']"

definition msg_multiples :: string where
  "msg_multiples = ''Width and height must be multiples of 64''"

definition msg_768 :: string where
  "msg_768 =
     ''Size must be between 589,824 (768x768) and 1,048,576 (1024x1024) for engine_id containing 768''"

definition msg_other :: string where
  "msg_other =
     ''Size must be between 262,144 (512x512) and 1,048,576 (1024x1024) for other engine_ids''"

definition openai_image :: zod_type where
  "openai_image =
     ZUnion
       [ZObject
          [(''size'', ZEnum [''1024x1024'', ''512x512'', ''256x256'']),
           (''style'', ZArray ZString (Some 1))],
        ZLiteralFalse]"

definition stabilityai_image_shape :: "(string \<times> zod_type) list" where
  "stabilityai_image_shape =
     [(''engine_id'', ZString),
      (''width'', ZNumber []),
      (''height'', ZNumber []),
      (''timeout'', ZNumber []),
      (''cfg_scale'', ZNumber [Min 0, Max 35]),
      (''samples'', ZNumber [Min 1, Max 10]),
      (''steps'', ZNumber [Min 10, Max 50]),
      (''style'', ZArray (ZEnum style_presets) (Some 1))]"

definition stabilityai_image_object :: zod_type where
  "stabilityai_image_object = ZObject stabilityai_image_shape"

definition stabilityai_image_refined :: zod_type where
  "stabilityai_image_refined =
     ZRefine
       (ZRefine
          (ZRefine stabilityai_image_object (on_size multiplesOf64) msg_multiples)
          (on_size validateSizeFor768) msg_768)
       (on_size validateSizeForOtherEngines) msg_other"

definition stabilityai_image :: zod_type where
  "stabilityai_image = ZUnion [stabilityai_image_refined, ZLiteralFalse]"

definition stabilityai :: zod_type where
  "stabilityai = ZNullish (ZObject [(''key'', ZString), (''image'', stabilityai_image)])"

definition schema_shape :: "(string \<times> zod_type) list" where
  "schema_shape =
     [(''telemetry'', ZBoolean),
      (''logs'', ZObject [(''level'', ZEnum log_levels)]),
      (''time'', ZObject [(''timezone'', ZString), (''format'', ZNullish ZString)]),
      (''image'',
         ZObject [(''interval'', ZNumber [Min 10]), (''order'', ZEnum [''random'', ''recent''])]),
      (''transcript'',
         ZObject [(''cron'', ZString), (''minutes'', ZNumber []), (''minimum'', ZNumber [Min 1])]),
      (''openai'',
         ZObject
           [(''key'', ZString),
            (''summary'',
               ZObject [(''model'', ZString), (''prompt'', ZString), (''random'', ZString)]),
            (''image'', openai_image)]),
      (''stabilityai'', stabilityai),
      (''system'',
         ZObject [(''port'', ZNumber []), (''storage'', ZObject [(''path'', ZString)])])]"

definition schema :: zod_type where
  "schema = ZObject schema_shape"

subsection \<open>The exported validator\<close>

text \<open>
  \<open>validate returnErrors configuration\<close> is the default export, with the configuration
  (the result of \<open>config.lowercase()\<close>) as an argument. It returns the array
  \<open>errors\<close> and the lines it wrote to the logger, in order. \<open>LogVerbose c\<close> stands for
  the line \<open>util.inspect(redact(c), ...)\<close>, whose text is made outside this file.
\<close>

datatype log_line = LogVerbose json | LogError string

fun seg_text :: "seg \<Rightarrow> string" where
  "seg_text (Key k) = k"
| "seg_text (Idx i) = show_nat i"

definition path_join :: "seg list \<Rightarrow> string" where
  "path_join p = join ''.'' (map seg_text p)"

definition issue_message :: "issue \<Rightarrow> string" where
  "issue_message e = path_join (path e) @ '': '' @ toLowerCase (message e)"

definition validate :: "bool \<Rightarrow> json \<Rightarrow> string list \<times> log_line list" where
  "validate returnErrors configuration =
     (let (st, issues) = parse schema [] configuration;
          log1 = (if \<not> returnErrors then [LogVerbose configuration] else [])
      in if st = Valid then ([], log1)
         else
           (let log2 = (if \<not> returnErrors
                        then [LogError (show_nat (length issues) @ '' validation error(s)'')]
                        else []);
                messages = map issue_message issues
            in if returnErrors then (messages, log1 @ log2)
               else ([], log1 @ log2 @ map LogError messages)))"

section \<open>Notions used to state the properties\<close>

text \<open>A bound of a number schema holds for \<open>x\<close>.\<close>

fun check_ok :: "rat \<Rightarrow> check \<Rightarrow> bool" where
  "check_ok x (Min m) = (of_int m \<le> x)"
| "check_ok x (Max m) = (x \<le> of_int m)"

text \<open>
  The issues that the three refinements of the image parameters add, in the order of
  the chain: one issue at the path of the parameter object for each predicate that fails.
\<close>

definition cross_field_issues :: "seg list \<Rightarrow> json \<Rightarrow> issue list" where
  "cross_field_issues p v =
     (if on_size multiplesOf64 v then [] else [\<lparr>path = p, message = msg_multiples\<rparr>]) @
     (if on_size validateSizeFor768 v then [] else [\<lparr>path = p, message = msg_768\<rparr>]) @
     (if on_size validateSizeForOtherEngines v then [] else [\<lparr>path = p, message = msg_other\<rparr>])"

subsection \<open>The rule set in the words of the specification\<close>


fun is_string :: "json \<Rightarrow> bool" where
  "is_string (JStr s) = True"
| "is_string _ = False"

fun number_where :: "(rat \<Rightarrow> bool) \<Rightarrow> json \<Rightarrow> bool" where
  "number_where P (JNum x) = P x"
| "number_where P _ = False"

fun one_of :: "string list \<Rightarrow> json \<Rightarrow> bool" where
  "one_of vals (JStr s) = (s \<in> set vals)"
| "one_of vals _ = False"

fun nonempty_array_of :: "(json \<Rightarrow> bool) \<Rightarrow> json \<Rightarrow> bool" where
  "nonempty_array_of P (JArr xs) = (xs \<noteq> [] \<and> list_all P xs)"
| "nonempty_array_of P _ = False"

fun object_where :: "((string \<times> json) list \<Rightarrow> bool) \<Rightarrow> json \<Rightarrow> bool" where
  "object_where P (JObj kvs) = P kvs"
| "object_where P _ = False"

definition is_integer :: "rat \<Rightarrow> bool" where
  "is_integer x = (of_int \<lfloor>x\<rfloor> = x)"

definition any_number :: "rat \<Rightarrow> bool" where
  "any_number x = True"









text \<open>The image-generation provider config of a configuration.\<close>

definition provider_section :: "json \<Rightarrow> json" where
  "provider_section c = (case c of JObj kvs \<Rightarrow> get kvs ''stabilityai'' | _ \<Rightarrow> JUndefined)"



subsection \<open>What the schema accepts for the image-generation provider\<close>

fun array_of :: "(json \<Rightarrow> bool) \<Rightarrow> json \<Rightarrow> bool" where
  "array_of P (JArr xs) = list_all P xs"
| "array_of P _ = False"

text \<open>
  The fields of an image-parameter object have the types that the object schema reads
  without aborting: a string, six numbers, and an array of styles of the enumeration.
\<close>

definition image_fields_typed :: "json \<Rightarrow> bool" where
  "image_fields_typed =
     object_where (\<lambda>kvs.
       is_string (get kvs ''engine_id'') \<and>
       number_where any_number (get kvs ''width'') \<and>
       number_where any_number (get kvs ''height'') \<and>
       number_where any_number (get kvs ''timeout'') \<and>
       number_where any_number (get kvs ''cfg_scale'') \<and>
       number_where any_number (get kvs ''samples'') \<and>
       number_where any_number (get kvs ''steps'') \<and>
       array_of (one_of style_presets) (get kvs ''style''))"

text \<open>
  The fields of an image-parameter object satisfy every rule of the object schema: the
  numbers need not be integers.
\<close>

definition image_fields_accepted :: "json \<Rightarrow> bool" where
  "image_fields_accepted =
     object_where (\<lambda>kvs.
       is_string (get kvs ''engine_id'') \<and>
       number_where any_number (get kvs ''width'') \<and>
       number_where any_number (get kvs ''height'') \<and>
       number_where any_number (get kvs ''timeout'') \<and>
       number_where (\<lambda>x. 0 \<le> x \<and> x \<le> 35) (get kvs ''cfg_scale'') \<and>
       number_where (\<lambda>x. 1 \<le> x \<and> x \<le> 10) (get kvs ''samples'') \<and>
       number_where (\<lambda>x. 10 \<le> x \<and> x \<le> 50) (get kvs ''steps'') \<and>
       nonempty_array_of (one_of style_presets) (get kvs ''style''))"

definition image_parameters_accepted :: "json \<Rightarrow> bool" where
  "image_parameters_accepted v =
     (image_fields_accepted v \<and> on_size multiplesOf64 v \<and>
      on_size validateSizeFor768 v \<and> on_size validateSizeForOtherEngines v)"

definition provider_accepted :: "json \<Rightarrow> bool" where
  "provider_accepted v =
     (v = JUndefined \<or> v = JNull \<or>
      object_where (\<lambda>kvs.
        is_string (get kvs ''key'') \<and>
        (get kvs ''image'' = JBool False \<or> image_parameters_accepted (get kvs ''image''))) v)"

text \<open>The image parameters that the specification calls integers.\<close>

definition number_fields :: "string list" where
  "number_fields = [''width'', ''height'', ''timeout'', ''samples'', ''steps'']"

text \<open>Those of them that no cross-field rule reads.\<close>

definition plain_number_fields :: "string list" where
  "plain_number_fields = [''timeout'', ''samples'', ''steps'']"

subsection \<open>Example configurations\<close>

text \<open>
  Image parameters with a given engine, width, height and timeout, and a configuration
  with a given log level and image-generation provider section; every other field has
  a value that the schema accepts.
\<close>

definition example_image :: "string \<Rightarrow> rat \<Rightarrow> rat \<Rightarrow> json \<Rightarrow> json" where
  "example_image e w h t =
     JObj
       [(''engine_id'', JStr e),
        (''width'', JNum w),
        (''height'', JNum h),
        (''timeout'', t),
        (''cfg_scale'', JNum 7),
        (''samples'', JNum 1),
        (''steps'', JNum 30),
        (''style'', JArr [JStr ''anime''])]"

definition example_provider :: "json \<Rightarrow> (string \<times> json) list" where
  "example_provider img = [(''key'', JStr ''sk-stability''), (''image'', img)]"

definition example_fields :: "string \<Rightarrow> json \<Rightarrow> (string \<times> json) list" where
  "example_fields level provider =
     [(''telemetry'', JBool True),
      (''logs'', JObj [(''level'', JStr level)]),
      (''time'', JObj [(''timezone'', JStr ''utc'')]),
      (''image'', JObj [(''interval'', JNum 60), (''order'', JStr ''recent'')]),
      (''transcript'',
         JObj [(''cron'', JStr ''0 * * * *''), (''minutes'', JNum 5), (''minimum'', JNum 5)]),
      (''openai'',
         JObj
           [(''key'', JStr ''sk''),
            (''summary'',
               JObj [(''model'', JStr ''gpt''), (''prompt'', JStr ''p''), (''random'', JStr ''r'')]),
            (''image'', JBool False)]),
      (''stabilityai'', provider),
      (''system'', JObj [(''port'', JNum 3000), (''storage'', JObj [(''path'', JStr ''./storage'')])])]"

definition example_config :: "string \<Rightarrow> json \<Rightarrow> json" where
  "example_config level provider = JObj (example_fields level provider)"

text \<open>
  Image parameters whose timeout, samples and steps are not integers, and image
  parameters that break two range rules and two cross-field rules at once.
\<close>

definition fractional_image :: json where
  "fractional_image =
     JObj
       [(''engine_id'', JStr ''stable-diffusion-v1-6''),
        (''width'', JNum 512),
        (''height'', JNum 512),
        (''timeout'', JNum (61 / 2)),
        (''cfg_scale'', JNum 7),
        (''samples'', JNum (3 / 2)),
        (''steps'', JNum (21 / 2)),
        (''style'', JArr [JStr ''anime''])]"

definition overloaded_image :: json where
  "overloaded_image =
     JObj
       [(''engine_id'', JStr ''stable-diffusion-v1-6''),
        (''width'', JNum 100),
        (''height'', JNum 768),
        (''timeout'', JNum 30),
        (''cfg_scale'', JNum 40),
        (''samples'', JNum 0),
        (''steps'', JNum 30),
        (''style'', JArr [JStr ''anime''])]"

definition image_path :: "seg list" where
  "image_path = [Key ''stabilityai'', Key ''image'']"

subsection \<open>The product of two integers\<close>

text \<open>
  An integer up to \<open>2^53\<close> in absolute value is a double, and a larger one rounds to a
  double or an infinity beyond \<open>2^53\<close>: comparing the product of two integers with a
  bound below \<open>2^53\<close> is comparing the exact product.
\<close>

lemma round_half_even_int: "round_half_even (of_int m) = m"
  by (simp add: round_half_even_def)

lemma round_half_even_ge: "of_int k \<le> y \<Longrightarrow> k \<le> round_half_even y"
proof -
  assume "of_int k \<le> y"
  then have "k \<le> \<lfloor>y\<rfloor>" by (simp add: le_floor_iff)
  then show ?thesis by (auto simp: round_half_even_def Let_def)
qed

lemma exponent_int: "0 < n \<Longrightarrow> exponent (of_int n) = bitlen n - 1"
  by (simp add: exponent_def)

lemma bitlen_pos: "0 < n \<Longrightarrow> 1 \<le> bitlen n"
  using bitlen_eq_zero_iff[of n] bitlen_nonneg[of n] by linarith

lemma round_magnitude_int_small:
  assumes "0 < n" and "n \<le> 2 ^ 53"
  shows "round_magnitude (of_int n) = of_int n"
proof -
  define e where "e = bitlen n - 1"
  have e0: "0 \<le> e" using bitlen_pos[OF assms(1)] by (simp add: e_def)
  have lo: "2 ^ nat e \<le> n" and hi: "n < 2 ^ nat (e + 1)"
    using bitlen_bounds[OF assms(1)] by (simp_all add: e_def)
  have "(2::int) ^ nat e \<le> 2 ^ 53" using lo assms(2) by linarith
  then have "nat e \<le> 53"
    using power_le_imp_le_exp[of "2::int" "nat e" 53] by simp
  then have e53: "e \<le> 53" by linarith
  have ex: "exponent (of_int n) = e" by (simp add: exponent_int[OF assms(1)] e_def)
  have mx: "max (e - 52) (- 1074) = e - 52" using e0 by simp
  have rm: "round_magnitude (of_int n) =
              pow2 (e - 52) * of_int (round_half_even (of_int n / pow2 (e - 52)))"
    unfolding round_magnitude_def ex mx Let_def ..
  show ?thesis
  proof (cases "e \<le> 52")
    case True
    define d where "d = nat (52 - e)"
    have q: "pow2 (e - 52) = 1 / 2 ^ d"
    proof (cases "e = 52")
      case True
      then show ?thesis by (simp add: pow2_def d_def)
    next
      case False
      with True have "e - 52 < 0" by simp
      then show ?thesis by (simp add: pow2_def d_def)
    qed
    have "(of_int n :: rat) / (1 / 2 ^ d) = of_int (n * 2 ^ d)" by simp
    then have "round_half_even (of_int n / (1 / 2 ^ d)) = n * 2 ^ d"
      by (simp only: round_half_even_int)
    then show ?thesis
      unfolding rm q by simp
  next
    case False
    with e53 have e: "e = 53" by simp
    define m :: int where "m = 2 ^ 52"
    have "2 * m \<le> n" using lo e by (simp add: m_def)
    moreover have "n \<le> 2 * m" using assms(2) by (simp add: m_def)
    ultimately have n: "n = 2 * m" by simp
    have q: "pow2 (e - 52) = 2" by (simp add: pow2_def e)
    have "(of_int n :: rat) / 2 = of_int m" by (simp add: n)
    then have "round_half_even (of_int n / 2) = m"
      by (simp only: round_half_even_int)
    then show ?thesis
      unfolding rm q by (simp add: n)
  qed
qed

lemma round_magnitude_int_large:
  assumes "2 ^ 53 < n"
  shows "2 ^ 53 \<le> round_magnitude (of_int n)"
proof -
  have pos: "0 < n" using assms by (smt (verit) zero_less_power)
  define e where "e = bitlen n - 1"
  have e0: "0 \<le> e" using bitlen_pos[OF pos] by (simp add: e_def)
  have lo: "2 ^ nat e \<le> n" and hi: "n < 2 ^ nat (e + 1)"
    using bitlen_bounds[OF pos] by (simp_all add: e_def)
  have "(2::int) ^ 53 < 2 ^ nat (e + 1)" using hi assms by linarith
  then have "53 < nat (e + 1)"
    using power_less_imp_less_exp[of "2::int" 53 "nat (e + 1)"] by simp
  then have e53: "53 \<le> e" by linarith
  define d where "d = nat (e - 53)"
  have ed: "nat e = 53 + d" "nat (e - 52) = Suc d" using e53 by (simp_all add: d_def)
  have ex: "exponent (of_int n) = e" by (simp add: exponent_int[OF pos] e_def)
  have mx: "max (e - 52) (- 1074) = e - 52" using e0 by simp
  have rm: "round_magnitude (of_int n) =
              pow2 (e - 52) * of_int (round_half_even (of_int n / pow2 (e - 52)))"
    unfolding round_magnitude_def ex mx Let_def ..
  define q :: rat where "q = 2 ^ Suc d"
  define m :: int where "m = 2 ^ 52"
  have q: "pow2 (e - 52) = q" using e53 by (simp add: pow2_def ed q_def)
  have q1: "2 \<le> q" "0 < q"
  proof -
    have "(1::rat) \<le> 2 ^ d" by simp
    then show "2 \<le> q" by (simp add: q_def)
    then show "0 < q" by linarith
  qed
  have "m * 2 ^ Suc d \<le> n" using lo by (simp add: ed power_add m_def)
  then have "(of_int (m * 2 ^ Suc d) :: rat) \<le> of_int n" by (simp only: of_int_le_iff)
  then have "(of_int m :: rat) * q \<le> of_int n" by (simp add: q_def)
  then have "(of_int m :: rat) \<le> of_int n / q"
    using q1(2) by (simp add: pos_le_divide_eq)
  then have "m \<le> round_half_even (of_int n / q)"
    by (rule round_half_even_ge)
  then have "(of_int m :: rat) \<le> of_int (round_half_even (of_int n / q))"
    by (simp only: of_int_le_iff)
  then have "q * of_int m \<le> q * of_int (round_half_even (of_int n / q))"
    using q1(2) by (simp only: mult_le_cancel_left_pos)
  moreover have "2 * (of_int m :: rat) \<le> q * of_int m"
  proof -
    have "(0::rat) \<le> of_int m" by (simp add: m_def)
    then show ?thesis using q1(1) by (rule mult_right_mono[rotated])
  qed
  moreover have "(2::rat) ^ 53 = 2 * of_int m" by (simp add: m_def)
  ultimately have "(2::rat) ^ 53 \<le> q * of_int (round_half_even (of_int n / q))"
    by linarith
  then show ?thesis unfolding rm q .
qed

lemma to_double_int_small:
  assumes "\<bar>n\<bar> \<le> 2 ^ 53"
  shows "to_double (of_int n) = Finite (of_int n)"
proof -
  have big: "\<not> (2::rat) ^ 1024 \<le> of_int m" if "m \<le> 2 ^ 53" for m :: int
  proof -
    have "(of_int m :: rat) \<le> of_int (2 ^ 53)" using that by (simp only: of_int_le_iff)
    moreover have "(of_int (2 ^ 53) :: rat) < 2 ^ 1024" by simp
    ultimately show ?thesis by linarith
  qed
  consider "n = 0" | "0 < n" | "n < 0" by linarith
  then show ?thesis
  proof cases
    case 1
    then show ?thesis by (simp add: to_double_def)
  next
    case 2
    then have "n \<le> 2 ^ 53" using assms by simp
    then show ?thesis
      using 2 big[of n] by (simp add: to_double_def round_magnitude_int_small Let_def)
  next
    case 3
    then have m: "0 < - n" "- n \<le> 2 ^ 53" using assms by simp_all
    have "round_magnitude (- of_int n) = of_int (- n)"
      using round_magnitude_int_small[OF m] by simp
    then show ?thesis
      using 3 big[of "- n"] m by (simp add: to_double_def Let_def)
  qed
qed

lemma to_double_int_large:
  assumes "2 ^ 53 < n"
  shows "to_double (of_int n) = PosInfinity \<or> (\<exists>r. to_double (of_int n) = Finite r \<and> 2 ^ 53 \<le> r)"
    and "to_double (of_int (- n)) = NegInfinity \<or>
         (\<exists>r. to_double (of_int (- n)) = Finite r \<and> r \<le> - (2 ^ 53))"
proof -
  have pos: "0 < n" using assms by (smt (verit) zero_less_power)
  show "to_double (of_int n) = PosInfinity \<or> (\<exists>r. to_double (of_int n) = Finite r \<and> 2 ^ 53 \<le> r)"
    using pos round_magnitude_int_large[OF assms] by (simp add: to_double_def Let_def)
  show "to_double (of_int (- n)) = NegInfinity \<or>
         (\<exists>r. to_double (of_int (- n)) = Finite r \<and> r \<le> - (2 ^ 53))"
    using pos round_magnitude_int_large[OF assms] by (simp add: to_double_def Let_def)
qed

lemma js_compare_int:
  assumes "is_integer x" and "is_integer y" and "\<bar>b\<bar> < 2 ^ 53"
  shows "js_less (js_mul x y) b \<longleftrightarrow> x * y < b"
    and "js_greater (js_mul x y) b \<longleftrightarrow> b < x * y"
proof -
  define n where "n = \<lfloor>x\<rfloor> * \<lfloor>y\<rfloor>"
  have "of_int \<lfloor>x\<rfloor> = x" "of_int \<lfloor>y\<rfloor> = y"
    using assms(1,2) unfolding is_integer_def by blast+
  then have "x * y = of_int \<lfloor>x\<rfloor> * of_int \<lfloor>y\<rfloor>"
    by (simp only:)
  then have xy: "x * y = of_int n" by (simp add: n_def)
  have b: "b < 2 ^ 53" "- (2 ^ 53) < b" using assms(3) by linarith+
  consider "\<bar>n\<bar> \<le> 2 ^ 53" | "2 ^ 53 < n" | "2 ^ 53 < - n" by linarith
  then have "(js_less (js_mul x y) b \<longleftrightarrow> x * y < b) \<and> (js_greater (js_mul x y) b \<longleftrightarrow> b < x * y)"
  proof cases
    case 1
    then show ?thesis by (simp add: js_mul_def xy to_double_int_small)
  next
    case 2
    have "(of_int (2 ^ 53) :: rat) < of_int n" using 2 by (simp only: of_int_less_iff)
    then have "(2::rat) ^ 53 < of_int n" by simp
    then have bn: "b < of_int n" using b(1) by linarith
    from to_double_int_large(1)[OF 2]
    have "\<not> js_less (to_double (of_int n)) b \<and> js_greater (to_double (of_int n)) b"
    proof
      assume "to_double (of_int n) = PosInfinity"
      then show ?thesis by simp
    next
      assume "\<exists>r. to_double (of_int n) = Finite r \<and> 2 ^ 53 \<le> r"
      then obtain r where r: "to_double (of_int n) = Finite r" "2 ^ 53 \<le> r" by blast
      have "b < r" using r(2) b(1) by linarith
      then show ?thesis by (simp add: r(1))
    qed
    then show ?thesis using bn by (simp add: js_mul_def xy)
  next
    case 3
    have "(of_int (2 ^ 53) :: rat) < of_int (- n)" using 3 by (simp only: of_int_less_iff)
    then have "of_int n < - ((2::rat) ^ 53)" by simp
    then have bn: "of_int n < b" using b(2) by linarith
    have "to_double (of_int n) = NegInfinity \<or>
          (\<exists>r. to_double (of_int n) = Finite r \<and> r \<le> - (2 ^ 53))"
      using to_double_int_large(2)[OF 3] by simp
    then have "js_less (to_double (of_int n)) b \<and> \<not> js_greater (to_double (of_int n)) b"
    proof
      assume "to_double (of_int n) = NegInfinity"
      then show ?thesis by simp
    next
      assume "\<exists>r. to_double (of_int n) = Finite r \<and> r \<le> - (2 ^ 53)"
      then obtain r where r: "to_double (of_int n) = Finite r" "r \<le> - (2 ^ 53)" by blast
      have "r < b" using r(2) b(2) by linarith
      then show ?thesis by (simp add: r(1))
    qed
    then show ?thesis using bn by (simp add: js_mul_def xy)
  qed
  then show "js_less (js_mul x y) b \<longleftrightarrow> x * y < b"
    and "js_greater (js_mul x y) b \<longleftrightarrow> b < x * y" by blast+
qed

text \<open>
  Rounding never moves a product across a positive integer bound up to \<open>2^53\<close>:
  a product at or above such a bound is not below it after rounding, and a product at or
  below it is not above it.
\<close>

lemma round_half_even_le: "y \<le> of_int k \<Longrightarrow> round_half_even y \<le> k"
proof -
  assume y: "y \<le> of_int k"
  show ?thesis
  proof (cases "y = of_int \<lfloor>y\<rfloor>")
    case True
    then have "round_half_even y = \<lfloor>y\<rfloor>"
      using round_half_even_int[of "\<lfloor>y\<rfloor>"] by simp
    moreover have "\<lfloor>y\<rfloor> \<le> k" using y by (simp add: floor_le_iff)
    ultimately show ?thesis by simp
  next
    case False
    then have "of_int \<lfloor>y\<rfloor> < y" using of_int_floor_le[of y] by linarith
    then have "of_int \<lfloor>y\<rfloor> < (of_int k :: rat)" using y by linarith
    then have "\<lfloor>y\<rfloor> < k" by (simp only: of_int_less_iff)
    then show ?thesis by (auto simp: round_half_even_def Let_def)
  qed
qed

lemma pow2_nonpos: "k \<le> 0 \<Longrightarrow> pow2 k = 1 / 2 ^ nat (- k)"
  by (cases "k = 0") (simp_all add: pow2_def)

lemma exponent_bounds:
  assumes "1 \<le> x"
  shows "0 \<le> exponent x" and "2 ^ nat (exponent x) \<le> \<lfloor>x\<rfloor>"
proof -
  have pos: "0 < \<lfloor>x\<rfloor>" using assms by simp
  have e: "exponent x = bitlen \<lfloor>x\<rfloor> - 1" using assms by (simp add: exponent_def)
  show "0 \<le> exponent x" using bitlen_pos[OF pos] by (simp add: e)
  show "2 ^ nat (exponent x) \<le> \<lfloor>x\<rfloor>" using bitlen_bounds[OF pos] by (simp add: e)
qed

lemma exponent_small: "0 < x \<Longrightarrow> x < 1 \<Longrightarrow> exponent x \<le> 0"
  using bitlen_nonneg[of "\<lceil>1 / x\<rceil> - 1"] by (simp add: exponent_def)

text \<open>Below the exponent 53 the quantum is a negative power of two.\<close>

lemma round_magnitude_fine:
  assumes "exponent x \<le> 52"
  obtains d where "round_magnitude x = of_int (round_half_even (x * 2 ^ d)) / 2 ^ d"
proof -
  define k where "k = max (exponent x - 52) (- 1074)"
  have "k \<le> 0" using assms by (simp add: k_def)
  then have "pow2 k = 1 / 2 ^ nat (- k)" by (rule pow2_nonpos)
  then have "round_magnitude x =
               of_int (round_half_even (x * 2 ^ nat (- k))) / 2 ^ nat (- k)"
    by (simp add: round_magnitude_def Let_def k_def)
  then show ?thesis by (rule that)
qed

lemma round_magnitude_coarse:
  assumes "1 \<le> x" and "53 \<le> exponent x"
  shows "2 ^ 53 \<le> round_magnitude x"
proof -
  define e where "e = exponent x"
  define d where "d = nat (e - 53)"
  have e53: "53 \<le> e" using assms(2) by (simp add: e_def)
  have ed: "nat e = 53 + d" "nat (e - 52) = Suc d" using e53 by (simp_all add: d_def)
  have mx: "max (e - 52) (- 1074) = e - 52" using e53 by simp
  have rm: "round_magnitude x =
              pow2 (e - 52) * of_int (round_half_even (x / pow2 (e - 52)))"
    unfolding round_magnitude_def e_def[symmetric] mx Let_def ..
  define q :: rat where "q = 2 ^ Suc d"
  define m :: int where "m = 2 ^ 52"
  have q: "pow2 (e - 52) = q" using e53 by (simp add: pow2_def ed q_def)
  have q1: "2 \<le> q" "0 < q"
  proof -
    have "(1::rat) \<le> 2 ^ d" by simp
    then show "2 \<le> q" by (simp add: q_def)
    then show "0 < q" by linarith
  qed
  have "m * 2 ^ Suc d \<le> \<lfloor>x\<rfloor>"
    using exponent_bounds(2)[OF assms(1)] by (simp add: e_def[symmetric] ed power_add m_def)
  then have "(of_int (m * 2 ^ Suc d) :: rat) \<le> of_int \<lfloor>x\<rfloor>" by (simp only: of_int_le_iff)
  then have "(of_int (m * 2 ^ Suc d) :: rat) \<le> x" using of_int_floor_le[of x] by linarith
  then have "(of_int m :: rat) * q \<le> x" by (simp add: q_def)
  then have "(of_int m :: rat) \<le> x / q"
    using q1(2) by (simp add: pos_le_divide_eq)
  then have "m \<le> round_half_even (x / q)"
    by (rule round_half_even_ge)
  then have "(of_int m :: rat) \<le> of_int (round_half_even (x / q))"
    by (simp only: of_int_le_iff)
  then have "q * of_int m \<le> q * of_int (round_half_even (x / q))"
    using q1(2) by (simp only: mult_le_cancel_left_pos)
  moreover have "2 * (of_int m :: rat) \<le> q * of_int m"
  proof -
    have "(0::rat) \<le> of_int m" by (simp add: m_def)
    then show ?thesis using q1(1) by (rule mult_right_mono[rotated])
  qed
  moreover have "(2::rat) ^ 53 = 2 * of_int m" by (simp add: m_def)
  ultimately have "(2::rat) ^ 53 \<le> q * of_int (round_half_even (x / q))"
    by linarith
  then show ?thesis unfolding rm q .
qed

lemma round_magnitude_ge:
  assumes "of_int L \<le> x" and "0 < L" and "L \<le> 2 ^ 53"
  shows "of_int L \<le> round_magnitude x"
proof -
  have x1: "1 \<le> x"
  proof -
    have "1 \<le> L" using assms(2) by simp
    then have "(of_int 1 :: rat) \<le> of_int L" by (simp only: of_int_le_iff)
    then show ?thesis using assms(1) by simp
  qed
  have L53: "(of_int L :: rat) \<le> 2 ^ 53"
  proof -
    have "(of_int L :: rat) \<le> of_int (2 ^ 53)" using assms(3) by (simp only: of_int_le_iff)
    then show ?thesis by simp
  qed
  show ?thesis
  proof (cases "exponent x \<le> 52")
    case True
    from round_magnitude_fine[OF True] obtain d
      where rm: "round_magnitude x = of_int (round_half_even (x * 2 ^ d)) / 2 ^ d" by blast
    have "(of_int L :: rat) * 2 ^ d \<le> x * 2 ^ d"
      using assms(1) by (simp only: mult_le_cancel_right_pos zero_less_power zero_less_numeral)
    then have "(of_int (L * 2 ^ d) :: rat) \<le> x * 2 ^ d" by simp
    then have "L * 2 ^ d \<le> round_half_even (x * 2 ^ d)" by (rule round_half_even_ge)
    then have "(of_int (L * 2 ^ d) :: rat) \<le> of_int (round_half_even (x * 2 ^ d))"
      by (simp only: of_int_le_iff)
    then have "(of_int L :: rat) * 2 ^ d \<le> of_int (round_half_even (x * 2 ^ d))" by simp
    then have "(of_int L :: rat) \<le> of_int (round_half_even (x * 2 ^ d)) / 2 ^ d"
      by (simp add: pos_le_divide_eq)
    then show ?thesis unfolding rm .
  next
    case False
    then have "53 \<le> exponent x" by simp
    from round_magnitude_coarse[OF x1 this] L53 show ?thesis by linarith
  qed
qed

lemma round_magnitude_le:
  assumes "0 < x" and "x \<le> of_int H" and "H \<le> 2 ^ 53"
  shows "round_magnitude x \<le> of_int H"
proof -
  have fine: "round_magnitude x \<le> of_int H" if "exponent x \<le> 52"
  proof -
    from round_magnitude_fine[OF that] obtain d
      where rm: "round_magnitude x = of_int (round_half_even (x * 2 ^ d)) / 2 ^ d" by blast
    have "x * 2 ^ d \<le> (of_int H :: rat) * 2 ^ d"
      using assms(2) by (simp only: mult_le_cancel_right_pos zero_less_power zero_less_numeral)
    then have "x * 2 ^ d \<le> (of_int (H * 2 ^ d) :: rat)" by simp
    then have "round_half_even (x * 2 ^ d) \<le> H * 2 ^ d" by (rule round_half_even_le)
    then have "(of_int (round_half_even (x * 2 ^ d)) :: rat) \<le> of_int (H * 2 ^ d)"
      by (simp only: of_int_le_iff)
    then have "(of_int (round_half_even (x * 2 ^ d)) :: rat) \<le> of_int H * 2 ^ d" by simp
    then have "(of_int (round_half_even (x * 2 ^ d)) :: rat) / 2 ^ d \<le> of_int H"
      by (simp add: pos_divide_le_eq)
    then show ?thesis unfolding rm .
  qed
  show ?thesis
  proof (cases "x < 1")
    case True
    then have "exponent x \<le> 52" using exponent_small[OF assms(1) True] by simp
    then show ?thesis by (rule fine)
  next
    case False
    then have x1: "1 \<le> x" by simp
    show ?thesis
    proof (cases "exponent x \<le> 52")
      case True
      then show ?thesis by (rule fine)
    next
      case False
      then have e53: "53 \<le> exponent x" by simp
      define d where "d = nat (exponent x - 53)"
      have "nat (exponent x) = 53 + d" using e53 by (simp add: d_def)
      then have "(2::int) ^ 53 * 2 ^ d \<le> \<lfloor>x\<rfloor>"
        using exponent_bounds(2)[OF x1] by (simp add: power_add)
      moreover have "(2::int) ^ 53 * 1 \<le> 2 ^ 53 * 2 ^ d"
        by (simp only: mult_le_cancel_left_pos zero_less_power zero_less_numeral) simp
      ultimately have lo: "(2::int) ^ 53 \<le> \<lfloor>x\<rfloor>" by linarith
      have "\<lfloor>x\<rfloor> \<le> H" using assms(2) by (simp add: floor_le_iff)
      then have fH: "\<lfloor>x\<rfloor> = H" "H = 2 ^ 53" using lo assms(3) by linarith+
      have "of_int \<lfloor>x\<rfloor> \<le> x" by (rule of_int_floor_le)
      then have x: "x = of_int H" using assms(2) fH(1) by simp
      have "0 < H" using fH(2) by simp
      then show ?thesis
        unfolding x using round_magnitude_int_small[OF _ assms(3)] by simp
    qed
  qed
qed

lemma round_magnitude_nonneg: "0 < x \<Longrightarrow> 0 \<le> round_magnitude x"
proof -
  assume "0 < x"
  have q: "0 < pow2 k" for k by (simp add: pow2_def)
  then have "0 \<le> x / pow2 k" for k using \<open>0 < x\<close> by (simp add: less_imp_le)
  then have "0 \<le> round_half_even (x / pow2 k)" for k
    using round_half_even_ge[of 0 "x / pow2 k"] by simp
  then show ?thesis
    using q by (simp add: round_magnitude_def Let_def less_imp_le)
qed

lemma to_double_within:
  assumes "0 < L" and "L \<le> 2 ^ 53" and "0 < H" and "H \<le> 2 ^ 53"
  shows "of_int L \<le> x \<Longrightarrow> \<not> js_less (to_double x) (of_int L)"
    and "x \<le> of_int H \<Longrightarrow> \<not> js_greater (to_double x) (of_int H)"
proof -
  show "\<not> js_less (to_double x) (of_int L)" if "of_int L \<le> x"
  proof -
    have "(0::rat) < of_int L" using assms(1) by simp
    then have pos: "0 < x" using that by linarith
    show ?thesis
      using pos round_magnitude_ge[OF that assms(1,2)]
      by (simp add: to_double_def Let_def)
  qed
  show "\<not> js_greater (to_double x) (of_int H)" if "x \<le> of_int H"
  proof -
    have H0: "(0::rat) < of_int H" using assms(3) by simp
    have H1: "(of_int H :: rat) < 2 ^ 1024"
    proof -
      have "(of_int H :: rat) \<le> of_int (2 ^ 53)" using assms(4) by (simp only: of_int_le_iff)
      moreover have "(of_int (2 ^ 53) :: rat) < 2 ^ 1024" by simp
      ultimately show ?thesis by linarith
    qed
    consider "x = 0" | "0 < x" | "x < 0" by linarith
    then show ?thesis
    proof cases
      case 1
      then show ?thesis using H0 by (simp add: to_double_def)
    next
      case 2
      have r: "round_magnitude x \<le> of_int H" by (rule round_magnitude_le[OF 2 that assms(4)])
      then have "\<not> 2 ^ 1024 \<le> round_magnitude x" using H1 by linarith
      then show ?thesis using 2 r by (simp add: to_double_def Let_def)
    next
      case 3
      then have "0 \<le> round_magnitude (- x)" using round_magnitude_nonneg[of "- x"] by simp
      then have "- round_magnitude (- x) < of_int H" using H0 by linarith
      then show ?thesis using 3 by (simp add: to_double_def Let_def)
    qed
  qed
qed

lemma str_includes_sublist: "str_includes s t \<longleftrightarrow> sublist t s"
  by (induction s) (simp_all add: sublist_Cons_right)

section \<open>General facts about the parser\<close>

lemma merge_Valid_iff: "merge s t = Valid \<longleftrightarrow> s = Valid \<and> t = Valid"
  by (cases s; cases t) simp_all

lemma merge_Aborted_iff: "merge s t = Aborted \<longleftrightarrow> s = Aborted \<or> t = Aborted"
  by (cases s; cases t) simp_all

lemma foldl_merge_Valid:
  "foldl merge st sts = Valid \<longleftrightarrow> st = Valid \<and> (\<forall>t\<in>set sts. t = Valid)"
  by (induction sts arbitrary: st) (auto simp: merge_Valid_iff)

text \<open>An object schema reports the issues of every key of its shape, in order.\<close>

lemma parse_shape_issues:
  "snd (parse_shape shape p kvs) =
     concat (map (\<lambda>ks. snd (parse (snd ks) (p @ [Key (fst ks)]) (get kvs (fst ks)))) shape)"
  by (induction shape) (simp_all add: Let_def)

lemma parse_shape_Aborted:
  "fst (parse_shape shape p kvs) = Aborted \<longleftrightarrow>
     (\<exists>ks\<in>set shape. fst (parse (snd ks) (p @ [Key (fst ks)]) (get kvs (fst ks))) = Aborted)"
  by (induction shape) (simp_all add: Let_def merge_Aborted_iff)

text \<open>A result is valid exactly when no issue was added.\<close>

lemma valid_iff_no_issues:
  "fst (parse s p v) = Valid \<longleftrightarrow> snd (parse s p v) = []"
  "fst (parse_shape shape p kvs) = Valid \<longleftrightarrow> snd (parse_shape shape p kvs) = []"
  "(\<forall>iss. dirty = Some iss \<longrightarrow> iss \<noteq> []) \<Longrightarrow>
     fst (parse_options opts p v dirty) = Valid \<longleftrightarrow> snd (parse_options opts p v dirty) = []"
proof (induction s p v and shape p kvs and opts p v dirty
    rule: parse_parse_shape_parse_options.induct)
  case (1 p v)
  then show ?case by (cases v) simp_all
next
  case (2 p v)
  then show ?case by (cases v) simp_all
next
  case (3 checks p v)
  then show ?case by (cases v) (simp_all add: Let_def dirty_if_def)
next
  case (4 vals p v)
  then show ?case by (cases v) simp_all
next
  case (5 p v)
  then show ?case by simp
next
  case (6 s minLength p v)
  show ?case
  proof (cases v)
    case (JArr xs)
    have "\<forall>ix\<in>set (enumerate 0 xs).
            fst (parse s (p @ [Idx (fst ix)]) (snd ix)) = Valid \<longleftrightarrow>
            snd (parse s (p @ [Idx (fst ix)]) (snd ix)) = []"
      using 6 JArr by blast
    then show ?thesis
      using JArr by (auto simp: Let_def foldl_merge_Valid dirty_if_def split: option.splits)
  qed simp_all
next
  case (7 shape p v)
  then show ?case by (cases v) simp_all
next
  case (8 opts p v)
  then show ?case by simp
next
  case (9 s p v)
  then show ?case by simp
next
  case (10 s f msg p v)
  then show ?case
    by (cases "parse s p v"; cases "fst (parse s p v)") auto
next
  case (11 p kvs)
  then show ?case by simp
next
  case (12 ks shape p kvs)
  then show ?case by (simp add: Let_def merge_Valid_iff)
next
  case (13 p v dirty)
  then show ?case by (cases dirty) simp_all
next
  case (14 s opts p v dirty)
  show ?case
  proof (cases "parse s p v")
    case (Pair st iss)
    show ?thesis
    proof (cases st)
      case Valid
      then show ?thesis using Pair by simp
    next
      case Dirty
      have "iss \<noteq> []" using 14(1) Pair Dirty by auto
      then show ?thesis using 14(2)[OF Pair[symmetric] Dirty] 14(4) Pair Dirty
        by (cases dirty) auto
    next
      case Aborted
      then show ?thesis using 14(3)[OF Pair[symmetric] Aborted] 14(4) Pair by auto
    qed
  qed
qed

text \<open>Every issue lies at or below the path of the value that was parsed.\<close>

lemma issue_paths:
  "\<forall>e\<in>set (snd (parse s p v)). prefix p (path e)"
  "\<forall>e\<in>set (snd (parse_shape shape p kvs)). prefix p (path e)"
  "(\<forall>iss. dirty = Some iss \<longrightarrow> (\<forall>e\<in>set iss. prefix p (path e))) \<Longrightarrow>
     \<forall>e\<in>set (snd (parse_options opts p v dirty)). prefix p (path e)"
proof (induction s p v and shape p kvs and opts p v dirty
    rule: parse_parse_shape_parse_options.induct)
  case (1 p v)
  then show ?case by (cases v) (simp_all add: invalid_type_def)
next
  case (2 p v)
  then show ?case by (cases v) (simp_all add: invalid_type_def)
next
  case (3 checks p v)
  have "\<And>x c e. e \<in> set (check_issues p x c) \<Longrightarrow> path e = p"
  proof -
    fix x c e show "e \<in> set (check_issues p x c) \<Longrightarrow> path e = p"
      by (cases c) (auto split: if_splits)
  qed
  then show ?case by (cases v) (auto simp: invalid_type_def Let_def)
next
  case (4 vals p v)
  then show ?case by (cases v) (simp_all add: invalid_type_def invalid_enum_value_def)
next
  case (5 p v)
  then show ?case by (simp add: invalid_literal_def)
next
  case (6 s minLength p v)
  show ?case
  proof (cases v)
    case (JArr xs)
    have "\<forall>ix\<in>set (enumerate 0 xs).
            \<forall>e\<in>set (snd (parse s (p @ [Idx (fst ix)]) (snd ix))). prefix p (path e)"
    proof (intro ballI)
      fix ix e
      assume "ix \<in> set (enumerate 0 xs)"
        and "e \<in> set (snd (parse s (p @ [Idx (fst ix)]) (snd ix)))"
      then have "prefix (p @ [Idx (fst ix)]) (path e)"
        using 6 JArr by blast
      then show "prefix p (path e)" by (rule append_prefixD)
    qed
    then have items: "\<forall>e\<in>set (concat (map (\<lambda>ix. snd (parse s (p @ [Idx (fst ix)]) (snd ix)))
                         (enumerate 0 xs))). prefix p (path e)"
      by (simp only: set_concat set_map) blast
    have len: "\<forall>e\<in>set (case minLength of
                        Some n \<Rightarrow> if length xs < n then [too_small_array p n] else []
                      | None \<Rightarrow> []). prefix p (path e)"
      by (cases minLength) (simp_all add: too_small_array_def)
    have "snd (parse (ZArray s minLength) p v) =
            (case minLength of
               Some n \<Rightarrow> if length xs < n then [too_small_array p n] else []
             | None \<Rightarrow> []) @
            concat (map (\<lambda>ix. snd (parse s (p @ [Idx (fst ix)]) (snd ix))) (enumerate 0 xs))"
      using JArr by (simp add: Let_def comp_def)
    then show ?thesis
      using items len by (simp only: set_append) blast
  qed (simp_all add: invalid_type_def)
next
  case (7 shape p v)
  then show ?case by (cases v) (simp_all add: invalid_type_def)
next
  case (8 opts p v)
  then show ?case by simp
next
  case (9 s p v)
  then show ?case by simp
next
  case (10 s f msg p v)
  then show ?case
    by (cases "parse s p v"; cases "fst (parse s p v)") auto
next
  case (11 p kvs)
  then show ?case by simp
next
  case (12 ks shape p kvs)
  then show ?case by (auto simp: Let_def dest: append_prefixD)
next
  case (13 p v dirty)
  then show ?case by (cases dirty) (simp_all add: invalid_union_def)
next
  case (14 s opts p v dirty)
  show ?case
  proof (cases "parse s p v")
    case (Pair st iss)
    show ?thesis
    proof (cases st)
      case Valid
      then show ?thesis using Pair by simp
    next
      case Dirty
      have "\<forall>e\<in>set iss. prefix p (path e)" using 14(1) Pair by auto
      then show ?thesis using 14(2)[OF Pair[symmetric] Dirty] 14(4) Pair Dirty
        by (cases dirty) auto
    next
      case Aborted
      then show ?thesis using 14(3)[OF Pair[symmetric] Aborted] 14(4) Pair by auto
    qed
  qed
qed

lemma shape_issue_paths:
  assumes "e \<in> set (snd (parse_shape shape p kvs))"
  shows "\<exists>k\<in>fst ` set shape. prefix (p @ [Key k]) (path e)"
proof -
  from assms obtain ks where "ks \<in> set shape"
    and "e \<in> set (snd (parse (snd ks) (p @ [Key (fst ks)]) (get kvs (fst ks))))"
    unfolding parse_shape_issues by auto
  then show ?thesis using issue_paths(1) by blast
qed

lemma shape_issue_path_neq:
  "e \<in> set (snd (parse_shape shape p kvs)) \<Longrightarrow> path e \<noteq> p"
  using shape_issue_paths[of e shape p kvs] by (auto simp: prefix_def)

text \<open>A refinement and a union with the literal \<open>false\<close>, in closed form.\<close>

lemma parse_refine:
  "parse (ZRefine s f msg) p v =
     (if fst (parse s p v) = Aborted \<or> f v then parse s p v
      else (Dirty, snd (parse s p v) @ [\<lparr>path = p, message = msg\<rparr>]))"
  by (cases "parse s p v"; cases "fst (parse s p v)") auto

lemma parse_union_or_false:
  "parse (ZUnion [a, ZLiteralFalse]) p v =
     (if fst (parse a p v) = Valid \<or> v = JBool False then (Valid, [])
      else if fst (parse a p v) = Dirty then (Dirty, snd (parse a p v))
      else (Aborted, [invalid_union p]))"
  by (cases "parse a p v"; cases "fst (parse a p v)") auto

declare parse.simps(8,10) [simp del]

subsection \<open>When a schema reports nothing\<close>

lemma no_issues_boolean: "snd (parse ZBoolean p v) = [] \<longleftrightarrow> (\<exists>b. v = JBool b)"
  by (cases v) simp_all

lemma no_issues_string: "snd (parse ZString p v) = [] \<longleftrightarrow> (\<exists>s. v = JStr s)"
  by (cases v) simp_all

lemma check_issues_empty: "check_issues p x c = [] \<longleftrightarrow> check_ok x c"
  by (cases c) auto

lemma no_issues_number:
  "snd (parse (ZNumber cs) p v) = [] \<longleftrightarrow> (\<exists>x. v = JNum x \<and> (\<forall>c\<in>set cs. check_ok x c))"
  by (cases v) (simp_all add: Let_def check_issues_empty)

lemma no_issues_enum:
  "snd (parse (ZEnum vals) p v) = [] \<longleftrightarrow> (\<exists>s. v = JStr s \<and> s \<in> set vals)"
  by (cases v) simp_all

lemma no_issues_nullish:
  "snd (parse (ZNullish s) p v) = [] \<longleftrightarrow> v = JUndefined \<or> v = JNull \<or> snd (parse s p v) = []"
  by simp

lemma no_issues_object:
  "snd (parse (ZObject shape) p v) = [] \<longleftrightarrow>
     (\<exists>kvs. v = JObj kvs \<and>
        (\<forall>ks\<in>set shape. snd (parse (snd ks) (p @ [Key (fst ks)]) (get kvs (fst ks))) = []))"
  by (cases v) (simp_all add: parse_shape_issues)

lemma no_issues_array:
  "snd (parse (ZArray s (Some n)) p v) = [] \<longleftrightarrow>
     (\<exists>xs. v = JArr xs \<and> n \<le> length xs \<and>
        (\<forall>i<length xs. snd (parse s (p @ [Idx i]) (xs ! i)) = []))"
proof (cases v)
  case (JArr xs)
  have "(\<forall>ix\<in>set (enumerate 0 xs). snd (parse s (p @ [Idx (fst ix)]) (snd ix)) = []) \<longleftrightarrow>
        (\<forall>i<length xs. snd (parse s (p @ [Idx i]) (xs ! i)) = [])" (is "?L \<longleftrightarrow> ?R")
  proof
    assume l: ?L
    show ?R
    proof (intro allI impI)
      fix i assume "i < length xs"
      then have "(i, xs ! i) \<in> set (enumerate 0 xs)" by (simp add: in_set_enumerate_eq)
      with l show "snd (parse s (p @ [Idx i]) (xs ! i)) = []" by fastforce
    qed
  next
    assume ?R
    then show ?L by (auto simp: in_set_enumerate_eq)
  qed
  then show ?thesis using JArr by (auto simp: Let_def)
qed simp_all

lemma no_issues_refine:
  "snd (parse (ZRefine s f msg) p v) = [] \<longleftrightarrow> snd (parse s p v) = [] \<and> f v"
  using valid_iff_no_issues(1)[of s p v] by (auto simp: parse_refine)

lemma no_issues_union_or_false:
  "snd (parse (ZUnion [a, ZLiteralFalse]) p v) = [] \<longleftrightarrow> snd (parse a p v) = [] \<or> v = JBool False"
  using valid_iff_no_issues(1)[of a p v]
  by (auto simp: parse_union_or_false invalid_union_def)

lemma aborted_string: "fst (parse ZString p v) \<noteq> Aborted \<longleftrightarrow> (\<exists>s. v = JStr s)"
  by (cases v) simp_all

lemma aborted_number: "fst (parse (ZNumber cs) p v) \<noteq> Aborted \<longleftrightarrow> (\<exists>x. v = JNum x)"
  by (cases v) (simp_all add: Let_def dirty_if_def)

lemma shape_field_not_aborted:
  "fst (parse_shape shape p kvs) \<noteq> Aborted \<Longrightarrow> (k, s) \<in> set shape \<Longrightarrow>
     fst (parse s (p @ [Key k]) (get kvs k)) \<noteq> Aborted"
  unfolding parse_shape_Aborted by fastforce

subsection \<open>The validator in terms of the parser\<close>

lemma validate_True:
  "validate True c = (map issue_message (snd (parse schema [] c)), [])"
  using valid_iff_no_issues(1)[of schema "[]" c]
  by (cases "parse schema [] c") (auto simp: validate_def Let_def)

lemma validate_False_errors: "fst (validate False c) = []"
  by (cases "parse schema [] c") (auto simp: validate_def Let_def)

subsection \<open>The image parameters\<close>

lemma image_refined_issues:
  "fst (parse stabilityai_image_object p v) \<noteq> Aborted \<Longrightarrow>
     snd (parse stabilityai_image_refined p v) =
       snd (parse stabilityai_image_object p v) @ cross_field_issues p v"
  by (simp add: stabilityai_image_refined_def parse_refine cross_field_issues_def)

lemma image_refined_aborted:
  "fst (parse stabilityai_image_object p v) = Aborted \<Longrightarrow>
     parse stabilityai_image_refined p v = parse stabilityai_image_object p v"
  by (simp add: stabilityai_image_refined_def parse_refine)

lemma image_refined_status:
  "fst (parse stabilityai_image_refined p v) = Aborted \<longleftrightarrow>
     fst (parse stabilityai_image_object p v) = Aborted"
  by (simp add: stabilityai_image_refined_def parse_refine)

lemma image_object_not_aborted:
  "fst (parse stabilityai_image_object p v) \<noteq> Aborted \<Longrightarrow>
     \<exists>kvs. v = JObj kvs \<and> fst (parse_shape stabilityai_image_shape p kvs) \<noteq> Aborted"
  unfolding stabilityai_image_object_def by (cases v) simp_all

text \<open>The refinements always find two numbers and a string to read.\<close>

lemma image_object_size_value:
  assumes "fst (parse stabilityai_image_object p v) \<noteq> Aborted"
  shows "\<exists>val. as_size_value v = Some val"
proof -
  from image_object_not_aborted[OF assms] obtain kvs where v: "v = JObj kvs"
    and na: "fst (parse_shape stabilityai_image_shape p kvs) \<noteq> Aborted"
    by blast
  have "fst (parse ZString (p @ [Key ''engine_id'']) (get kvs ''engine_id'')) \<noteq> Aborted"
    by (rule shape_field_not_aborted[OF na]) (simp add: stabilityai_image_shape_def)
  moreover have "fst (parse (ZNumber []) (p @ [Key ''width'']) (get kvs ''width'')) \<noteq> Aborted"
    by (rule shape_field_not_aborted[OF na]) (simp add: stabilityai_image_shape_def)
  moreover have "fst (parse (ZNumber []) (p @ [Key ''height'']) (get kvs ''height'')) \<noteq> Aborted"
    by (rule shape_field_not_aborted[OF na]) (simp add: stabilityai_image_shape_def)
  ultimately obtain e w h where "get kvs ''engine_id'' = JStr e" "get kvs ''width'' = JNum w"
    "get kvs ''height'' = JNum h"
    unfolding aborted_string aborted_number by blast
  then show ?thesis by (simp add: as_size_value_def v)
qed

lemma image_object_issue_path_neq:
  "e \<in> set (snd (parse stabilityai_image_object p v)) \<Longrightarrow>
     fst (parse stabilityai_image_object p v) \<noteq> Aborted \<Longrightarrow> path e \<noteq> p"
  unfolding stabilityai_image_object_def
  by (cases v) (simp_all add: shape_issue_path_neq)

lemma image_issues:
  assumes "fst (parse stabilityai_image_object p v) \<noteq> Aborted"
  shows "snd (parse stabilityai_image p v) =
           snd (parse stabilityai_image_object p v) @ cross_field_issues p v"
proof -
  have nf: "v \<noteq> JBool False"
    using assms by (auto simp: stabilityai_image_object_def)
  have na: "fst (parse stabilityai_image_refined p v) \<noteq> Aborted"
    using assms by (simp add: image_refined_status)
  show ?thesis
  proof (cases "fst (parse stabilityai_image_refined p v)")
    case Valid
    then have "snd (parse stabilityai_image_refined p v) = []"
      by (simp add: valid_iff_no_issues(1))
    then show ?thesis
      using Valid image_refined_issues[OF assms]
      by (simp add: stabilityai_image_def parse_union_or_false)
  next
    case Dirty
    then show ?thesis
      using nf image_refined_issues[OF assms]
      by (simp add: stabilityai_image_def parse_union_or_false)
  next
    case Aborted
    then show ?thesis using na by simp
  qed
qed

lemma image_aborted:
  "fst (parse stabilityai_image_object p v) = Aborted \<Longrightarrow> v \<noteq> JBool False \<Longrightarrow>
     parse stabilityai_image p v = (Aborted, [invalid_union p])"
  by (simp add: stabilityai_image_def parse_union_or_false image_refined_aborted)

lemma image_no_issues:
  "snd (parse stabilityai_image p v) = [] \<longleftrightarrow>
     v = JBool False \<or>
     (snd (parse stabilityai_image_object p v) = [] \<and> on_size multiplesOf64 v \<and>
      on_size validateSizeFor768 v \<and> on_size validateSizeForOtherEngines v)"
  unfolding stabilityai_image_def stabilityai_image_refined_def
    no_issues_union_or_false no_issues_refine by blast

lemma msgs_distinct:
  "msg_768 \<noteq> msg_multiples" "msg_other \<noteq> msg_multiples" "msg_768 \<noteq> msg_other"
  by (simp_all add: msg_768_def msg_multiples_def msg_other_def)

lemma cross_field_member:
  "\<lparr>path = p, message = msg_multiples\<rparr> \<in> set (cross_field_issues p v) \<longleftrightarrow>
     \<not> on_size multiplesOf64 v"
  "\<lparr>path = p, message = msg_768\<rparr> \<in> set (cross_field_issues p v) \<longleftrightarrow>
     \<not> on_size validateSizeFor768 v"
  "\<lparr>path = p, message = msg_other\<rparr> \<in> set (cross_field_issues p v) \<longleftrightarrow>
     \<not> on_size validateSizeForOtherEngines v"
  using msgs_distinct by (auto simp: cross_field_issues_def)

lemma image_member:
  assumes "fst (parse stabilityai_image_object p v) \<noteq> Aborted"
  shows "\<lparr>path = p, message = m\<rparr> \<in> set (snd (parse stabilityai_image p v)) \<longleftrightarrow>
         \<lparr>path = p, message = m\<rparr> \<in> set (cross_field_issues p v)"
  using image_object_issue_path_neq[of "\<lparr>path = p, message = m\<rparr>" p v] assms
  by (auto simp: image_issues[OF assms])

text \<open>The remainder by 64 is zero exactly on the integer multiples of 64.\<close>

lemma js_rem_64: "js_rem x 64 = 0 \<longleftrightarrow> (\<exists>i::int. x = of_int (64 * i))"
proof
  assume "js_rem x 64 = 0"
  then have "x = 64 * of_int (if 0 \<le> x / 64 then \<lfloor>x / 64\<rfloor> else \<lceil>x / 64\<rceil>)"
    by (simp add: js_rem_def Let_def)
  then have "x = of_int (64 * (if 0 \<le> x / 64 then \<lfloor>x / 64\<rfloor> else \<lceil>x / 64\<rceil>))"
    by simp
  then show "\<exists>i::int. x = of_int (64 * i)" by blast
next
  assume "\<exists>i::int. x = of_int (64 * i)"
  then obtain i :: int where "x = of_int (64 * i)" by blast
  then have "x / 64 = of_int i" by simp
  then show "js_rem x 64 = 0"
    using \<open>x = of_int (64 * i)\<close> by (simp add: js_rem_def Let_def)
qed

lemma js_rem_100: "js_rem 100 64 \<noteq> 0"
proof
  assume "js_rem 100 64 = 0"
  then obtain i :: int where "(100::rat) = of_int (64 * i)"
    unfolding js_rem_64 by blast
  then have "(of_int 100 :: rat) = of_int (64 * i)" by simp
  then have "(100::int) = 64 * i" by (simp only: of_int_eq_iff)
  then show False by presburger
qed

lemma js_rem_768: "js_rem 768 64 = 0"
  unfolding js_rem_64 by (rule exI[of _ 12]) simp

text \<open>The two area predicates on integer sides, with the exact product.\<close>

lemma js_interval_int:
  assumes "is_integer w" and "is_integer h" and "\<bar>lo\<bar> < 2 ^ 53" and "\<bar>hi\<bar> < 2 ^ 53"
  shows "(js_less (js_mul w h) lo \<or> js_greater (js_mul w h) hi) \<longleftrightarrow>
           \<not> (lo \<le> w * h \<and> w * h \<le> hi)"
  using js_compare_int(1)[OF assms(1,2,3)] js_compare_int(2)[OF assms(1,2,4)]
  by auto

lemma area_bounds:
  "\<bar>589824 :: rat\<bar> < 2 ^ 53" "\<bar>262144 :: rat\<bar> < 2 ^ 53" "\<bar>1048576 :: rat\<bar> < 2 ^ 53"
  by simp_all

lemma size_768_int:
  assumes "is_integer (width val)" and "is_integer (height val)"
  shows "validateSizeFor768 val \<longleftrightarrow>
           \<not> (sublist ''768'' (engine_id val) \<and>
              \<not> (589824 \<le> width val * height val \<and> width val * height val \<le> 1048576))"
  unfolding validateSizeFor768_def Let_def str_includes_sublist
    js_interval_int[OF assms area_bounds(1,3)]
  by blast

lemma size_other_int:
  assumes "is_integer (width val)" and "is_integer (height val)"
  shows "validateSizeForOtherEngines val \<longleftrightarrow>
           \<not> (\<not> sublist ''768'' (engine_id val) \<and>
              \<not> (262144 \<le> width val * height val \<and> width val * height val \<le> 1048576))"
  unfolding validateSizeForOtherEngines_def Let_def str_includes_sublist
    js_interval_int[OF assms area_bounds(2,3)]
  by blast

lemma js_interval_within:
  assumes "589824 \<le> x \<or> 262144 \<le> x" and "x \<le> 1048576"
  shows "589824 \<le> x \<Longrightarrow> \<not> js_less (to_double x) 589824"
    and "262144 \<le> x \<Longrightarrow> \<not> js_less (to_double x) 262144"
    and "\<not> js_greater (to_double x) 1048576"
proof -
  have b: "(0::int) < 589824" "(589824::int) \<le> 2 ^ 53" "(0::int) < 262144"
    "(262144::int) \<le> 2 ^ 53" "(0::int) < 1048576" "(1048576::int) \<le> 2 ^ 53"
    by simp_all
  show "\<not> js_less (to_double x) 589824" if "589824 \<le> x"
    using to_double_within(1)[OF b(1,2,5,6), of x] that by simp
  show "\<not> js_less (to_double x) 262144" if "262144 \<le> x"
    using to_double_within(1)[OF b(3,4,5,6), of x] that by simp
  show "\<not> js_greater (to_double x) 1048576"
    using to_double_within(2)[OF b(3,4,5,6), of x] assms(2) by simp
qed

lemma size_within:
  assumes "if sublist ''768'' (engine_id val)
           then 589824 \<le> width val * height val \<and> width val * height val \<le> 1048576
           else 262144 \<le> width val * height val \<and> width val * height val \<le> 1048576"
  shows "validateSizeFor768 val \<and> validateSizeForOtherEngines val"
proof (cases "sublist ''768'' (engine_id val)")
  case True
  with assms have r: "589824 \<le> width val * height val" "width val * height val \<le> 1048576"
    by simp_all
  have "589824 \<le> width val * height val \<or> 262144 \<le> width val * height val"
    using r(1) by simp
  from js_interval_within(1,3)[OF this r(2)] r(1) True
  show ?thesis
    by (simp add: validateSizeFor768_def validateSizeForOtherEngines_def Let_def
          str_includes_sublist js_mul_def)
next
  case False
  with assms have r: "262144 \<le> width val * height val" "width val * height val \<le> 1048576"
    by simp_all
  have "589824 \<le> width val * height val \<or> 262144 \<le> width val * height val"
    using r(1) by simp
  from js_interval_within(2,3)[OF this r(2)] r(1) False
  show ?thesis
    by (simp add: validateSizeFor768_def validateSizeForOtherEngines_def Let_def
          str_includes_sublist js_mul_def)
qed

lemma js_rem_64_integer:
  assumes "js_rem x 64 = 0"
  shows "is_integer x"
proof -
  from assms obtain i :: int where "x = of_int (64 * i)"
    unfolding js_rem_64 by blast
  then show ?thesis by (simp add: is_integer_def)
qed

subsection \<open>The sections of the configuration\<close>

lemma schema_issues:
  "snd (parse schema [] (JObj kvs)) =
     concat (map (\<lambda>ks. snd (parse (snd ks) [Key (fst ks)] (get kvs (fst ks)))) schema_shape)"
  by (simp add: schema_def parse_shape_issues)

lemma provider_issues:
  "snd (parse stabilityai [Key ''stabilityai''] (JObj skvs)) =
     snd (parse ZString [Key ''stabilityai'', Key ''key''] (get skvs ''key'')) @
     snd (parse stabilityai_image image_path (get skvs ''image''))"
  by (simp add: stabilityai_def parse_shape_issues image_path_def del: parse_shape.simps)

lemma provider_section:
  "(''stabilityai'', stabilityai) \<in> set schema_shape"
  by (simp add: schema_shape_def)

lemma section_issues_subset:
  assumes "(k, s) \<in> set schema_shape"
  shows "set (snd (parse s [Key k] (get kvs k))) \<subseteq> set (snd (parse schema [] (JObj kvs)))"
  unfolding schema_issues using assms by force

lemma provider_only_section:
  "ks \<in> set schema_shape \<Longrightarrow> fst ks = ''stabilityai'' \<Longrightarrow> snd ks = stabilityai"
  by (auto simp: schema_shape_def)

lemma image_issue_origin:
  assumes e: "e \<in> set (snd (parse schema [] (JObj kvs)))"
    and pre: "prefix image_path (path e)"
    and prov: "get kvs ''stabilityai'' = JObj skvs"
  shows "e \<in> set (snd (parse stabilityai_image image_path (get skvs ''image'')))"
proof -
  from e obtain ks where ks: "ks \<in> set schema_shape"
    and eks: "e \<in> set (snd (parse (snd ks) [Key (fst ks)] (get kvs (fst ks))))"
    unfolding schema_issues by auto
  have "prefix [Key (fst ks)] (path e)"
    using issue_paths(1) eks by blast
  with pre have "fst ks = ''stabilityai''"
    by (auto simp: prefix_def image_path_def)
  with ks eks prov have "e \<in> set (snd (parse stabilityai [Key ''stabilityai''] (JObj skvs)))"
    using provider_only_section by auto
  then consider
    (key) "e \<in> set (snd (parse ZString [Key ''stabilityai'', Key ''key''] (get skvs ''key'')))"
    | (image) "e \<in> set (snd (parse stabilityai_image image_path (get skvs ''image'')))"
    unfolding provider_issues by auto
  then show ?thesis
  proof cases
    case key
    then have "prefix [Key ''stabilityai'', Key ''key''] (path e)"
      using issue_paths(1) by blast
    with pre show ?thesis by (auto simp: prefix_def image_path_def)
  next
    case image
    then show ?thesis .
  qed
qed

lemma message_multiples:
  "issue_message \<lparr>path = image_path, message = msg_multiples\<rparr> =
     ''stabilityai.image: width and height must be multiples of 64''"
  by code_simp

lemma message_768:
  "issue_message \<lparr>path = image_path, message = msg_768\<rparr> =
     ''stabilityai.image: size must be between 589,824 (768x768) and 1,048,576 (1024x1024) for engine_id containing 768''"
  by code_simp

lemma message_other:
  "issue_message \<lparr>path = image_path, message = msg_other\<rparr> =
     ''stabilityai.image: size must be between 262,144 (512x512) and 1,048,576 (1024x1024) for other engine_ids''"
  by code_simp

lemma image_issues_reported:
  assumes "get kvs ''stabilityai'' = JObj skvs"
  shows "set (snd (parse stabilityai_image image_path (get skvs ''image''))) \<subseteq>
           set (snd (parse schema [] (JObj kvs)))"
  using section_issues_subset[OF provider_section, of kvs] assms
  by (auto simp: provider_issues)

lemma validate_member:
  "e \<in> set (snd (parse schema [] c)) \<Longrightarrow> issue_message e \<in> set (fst (validate True c))"
  by (simp add: validate_True)

lemma no_width_height_issue:
  assumes na: "fst (parse stabilityai_image_object p v) \<noteq> Aborted"
    and e: "e \<in> set (snd (parse stabilityai_image p v))"
  shows "path e \<noteq> p @ [Key ''width''] \<and> path e \<noteq> p @ [Key ''height'']"
proof -
  from image_object_not_aborted[OF na] obtain ikvs where v: "v = JObj ikvs"
    and nas: "fst (parse_shape stabilityai_image_shape p ikvs) \<noteq> Aborted"
    by blast
  have "fst (parse (ZNumber []) (p @ [Key ''width'']) (get ikvs ''width'')) \<noteq> Aborted"
    by (rule shape_field_not_aborted[OF nas]) (simp add: stabilityai_image_shape_def)
  then obtain w where w: "get ikvs ''width'' = JNum w"
    unfolding aborted_number by blast
  have "fst (parse (ZNumber []) (p @ [Key ''height'']) (get ikvs ''height'')) \<noteq> Aborted"
    by (rule shape_field_not_aborted[OF nas]) (simp add: stabilityai_image_shape_def)
  then obtain h where h: "get ikvs ''height'' = JNum h"
    unfolding aborted_number by blast
  from e consider
    (field) ks where "ks \<in> set stabilityai_image_shape"
      "e \<in> set (snd (parse (snd ks) (p @ [Key (fst ks)]) (get ikvs (fst ks))))"
    | (cross) "e \<in> set (cross_field_issues p v)"
    unfolding image_issues[OF na] by (auto simp: v stabilityai_image_object_def parse_shape_issues)
  then show ?thesis
  proof cases
    case field
    have pre: "prefix (p @ [Key (fst ks)]) (path e)"
      using issue_paths(1) field(2) by blast
    have "fst ks \<noteq> ''width'' \<and> fst ks \<noteq> ''height''"
    proof (rule ccontr)
      assume "\<not> (fst ks \<noteq> ''width'' \<and> fst ks \<noteq> ''height'')"
      then have "snd ks = ZNumber [] \<and> (\<exists>x. get ikvs (fst ks) = JNum x)"
        using field(1) w h by (auto simp: stabilityai_image_shape_def)
      then show False using field(2) by (auto simp: Let_def)
    qed
    with pre show ?thesis by (auto simp: prefix_def)
  next
    case cross
    then have "path e = p" by (auto simp: cross_field_issues_def split: if_splits)
    then show ?thesis by simp
  qed
qed

subsection \<open>Messages and the log section\<close>

lemma lower_char_code:
  "(of_char (lower_char c) :: nat) =
     (if 65 \<le> (of_char c :: nat) \<and> (of_char c :: nat) \<le> 90 then of_char c + 32 else of_char c)"
  by (auto simp: lower_char_def Let_def)

lemma trace_message:
  "''logs.level: '' @
     toLowerCase (message (invalid_enum_value [Key ''logs'', Key ''level''] log_levels ''trace'')) =
   ''logs.level: invalid enum value. expected 'silent' | 'error' | 'warn' | 'info' | 'http' | 'verbose' | 'debug' | 'silly', received 'trace'' @ [CHR 0x27]"
  by code_simp

lemma logs_entry: "ks \<in> set schema_shape \<Longrightarrow> fst ks = ''logs'' \<Longrightarrow>
  snd ks = ZObject [(''level'', ZEnum log_levels)]"
  by (auto simp: schema_shape_def)

lemma trace_not_level: "''trace'' \<notin> set log_levels"
  by (simp add: log_levels_def)

lemma logs_trace_issues:
  assumes "get kvs ''logs'' = JObj lkvs" "get lkvs ''level'' = JStr ''trace''"
  shows "snd (parse (ZObject [(''level'', ZEnum log_levels)]) [Key ''logs''] (get kvs ''logs'')) =
           [invalid_enum_value [Key ''logs'', Key ''level''] log_levels ''trace'']"
  using assms trace_not_level by (simp add: Let_def)

subsection \<open>The rule set of the specification implies acceptance\<close>



















subsection \<open>The accepted shapes, exactly\<close>

lemma iff_string: "snd (parse ZString p v) = [] \<longleftrightarrow> is_string v"
  by (cases v) simp_all

lemma iff_number:
  "snd (parse (ZNumber cs) p v) = [] \<longleftrightarrow> number_where (\<lambda>x. \<forall>c\<in>set cs. check_ok x c) v"
  by (cases v) (simp_all add: no_issues_number del: parse.simps)

lemma iff_enum: "snd (parse (ZEnum vals) p v) = [] \<longleftrightarrow> one_of vals v"
  by (cases v) simp_all

lemma iff_array_enum:
  assumes "n = 1"
  shows "snd (parse (ZArray (ZEnum vals) (Some n)) p v) = [] \<longleftrightarrow>
           nonempty_array_of (one_of vals) v"
proof (cases v)
  case (JArr xs)
  have "n \<le> length xs \<longleftrightarrow> xs \<noteq> []" using assms by (cases xs) simp_all
  then show ?thesis
    unfolding no_issues_array JArr by (simp add: iff_enum list_all_length del: parse.simps)
qed (simp_all add: no_issues_array del: parse.simps)

lemma iff_object:
  "snd (parse (ZObject shape) p v) = [] \<longleftrightarrow>
     object_where (\<lambda>kvs. \<forall>ks\<in>set shape.
        snd (parse (snd ks) (p @ [Key (fst ks)]) (get kvs (fst ks))) = []) v"
  by (cases v) (simp_all add: no_issues_object del: parse.simps)

lemma image_object_no_issues:
  "snd (parse stabilityai_image_object p v) = [] \<longleftrightarrow> image_fields_accepted v"
  unfolding stabilityai_image_object_def image_fields_accepted_def iff_object
  by (cases v)
     (simp_all add: stabilityai_image_shape_def iff_string iff_number iff_array_enum
        any_number_def[abs_def] del: parse.simps)

lemma image_accepted_iff:
  "snd (parse stabilityai_image p v) = [] \<longleftrightarrow> v = JBool False \<or> image_parameters_accepted v"
  unfolding image_no_issues image_object_no_issues image_parameters_accepted_def by blast

lemma not_aborted_string: "fst (parse ZString p v) \<noteq> Aborted \<longleftrightarrow> is_string v"
  by (cases v) simp_all

lemma not_aborted_number:
  "fst (parse (ZNumber cs) p v) \<noteq> Aborted \<longleftrightarrow> number_where any_number v"
  by (cases v) (simp_all add: Let_def dirty_if_def any_number_def)

lemma not_aborted_enum: "fst (parse (ZEnum vals) p v) \<noteq> Aborted \<longleftrightarrow> one_of vals v"
  by (cases v) simp_all

lemma foldl_merge_Aborted:
  "foldl merge st sts = Aborted \<longleftrightarrow> st = Aborted \<or> Aborted \<in> set sts"
  by (induction sts arbitrary: st) (auto simp: merge_Aborted_iff)

lemma not_aborted_array_enum:
  "fst (parse (ZArray (ZEnum vals) m) p v) \<noteq> Aborted \<longleftrightarrow> array_of (one_of vals) v"
proof (cases v)
  case (JArr xs)
  have "Aborted \<in> set (map (\<lambda>ix. fst (parse (ZEnum vals) (p @ [Idx (fst ix)]) (snd ix)))
                         (enumerate 0 xs)) \<longleftrightarrow> \<not> list_all (one_of vals) xs"
    (is "?L \<longleftrightarrow> ?R")
  proof
    assume ?L
    then obtain ix where "ix \<in> set (enumerate 0 xs)"
      and "\<not> fst (parse (ZEnum vals) (p @ [Idx (fst ix)]) (snd ix)) \<noteq> Aborted"
      by auto
    then have "fst ix < length xs" "xs ! fst ix = snd ix" "\<not> one_of vals (snd ix)"
      unfolding not_aborted_enum by (auto simp: in_set_enumerate_eq)
    then have "snd ix \<in> set xs" "\<not> one_of vals (snd ix)"
      using nth_mem[of "fst ix" xs] by simp_all
    then show ?R by (auto simp: list_all_iff)
  next
    assume ?R
    then obtain x where x: "x \<in> set xs" "\<not> one_of vals x" by (auto simp: list_all_iff)
    then obtain i where i: "i < length xs" "xs ! i = x" by (auto simp: in_set_conv_nth)
    then have "(i, x) \<in> set (enumerate 0 xs)" by (simp add: in_set_enumerate_eq)
    moreover have "Aborted = fst (parse (ZEnum vals) (p @ [Idx (fst (i, x))]) (snd (i, x)))"
      using x(2) not_aborted_enum[of vals "p @ [Idx i]" x] by simp
    ultimately show ?L unfolding set_map by (rule rev_image_eqI)
  qed
  moreover have "dirty_if iss \<noteq> Aborted" for iss
    by (simp add: dirty_if_def)
  ultimately show ?thesis
    using JArr by (simp add: Let_def foldl_merge_Aborted comp_def)
qed simp_all

lemma image_object_typed:
  "fst (parse stabilityai_image_object p v) \<noteq> Aborted \<longleftrightarrow> image_fields_typed v"
proof (cases v)
  case (JObj kvs)
  have "fst (parse_shape stabilityai_image_shape p kvs) \<noteq> Aborted \<longleftrightarrow>
          (\<forall>ks\<in>set stabilityai_image_shape.
             fst (parse (snd ks) (p @ [Key (fst ks)]) (get kvs (fst ks))) \<noteq> Aborted)"
    unfolding parse_shape_Aborted by blast
  also have "\<dots> \<longleftrightarrow> image_fields_typed v"
    unfolding image_fields_typed_def JObj
    by (simp add: stabilityai_image_shape_def not_aborted_string not_aborted_number
          not_aborted_array_enum del: parse.simps)
  finally show ?thesis by (simp add: stabilityai_image_object_def JObj)
qed (simp_all add: stabilityai_image_object_def image_fields_typed_def)

lemma number_field_schema:
  assumes "k \<in> set number_fields"
  shows "map_of stabilityai_image_shape k =
           Some (if k = ''samples'' then ZNumber [Min 1, Max 10]
                 else if k = ''steps'' then ZNumber [Min 10, Max 50]
                 else ZNumber [])"
proof -
  from assms consider "k = ''width''" | "k = ''height''" | "k = ''timeout''"
    | "k = ''samples''" | "k = ''steps''"
    unfolding number_fields_def by auto
  then show ?thesis
    by cases (simp_all add: stabilityai_image_shape_def)
qed

lemma number_field_member:
  assumes "k \<in> set number_fields"
  shows "\<exists>cs. (k, ZNumber cs) \<in> set stabilityai_image_shape"
proof -
  have "\<exists>cs. map_of stabilityai_image_shape k = Some (ZNumber cs)"
    unfolding number_field_schema[OF assms] by simp
  then show ?thesis using map_of_SomeD by fast
qed

lemma plain_number_fields_subset:
  "k \<in> set plain_number_fields \<Longrightarrow> k \<in> set number_fields"
  by (auto simp: plain_number_fields_def number_fields_def)

lemma non_integer_side:
  assumes "as_size_value v = Some val"
    and "\<not> (is_integer (width val) \<and> is_integer (height val))"
  shows "\<not> on_size multiplesOf64 v"
  using assms js_rem_64_integer by (auto simp: on_size_def multiplesOf64_def)

lemma parse_number_wrong_type:
  "\<not> number_where any_number v \<Longrightarrow>
     parse (ZNumber cs) q v = (Aborted, [invalid_type q ''number'' v])"
  by (cases v) (simp_all add: any_number_def)

section \<open>The properties\<close>

text \<open>
  C5 (mode separation). In log mode (\<open>returnErrors\<close> false) the returned array is
  empty for every configuration, whatever issues the schema finds; in return-errors mode
  nothing is written to the logger: no count line, no line per issue and no verbose dump
  of the configuration.
\<close>

theorem mode_separation:
  "fst (validate False c) = [] \<and> snd (validate True c) = []"
  by (simp add: validate_True validate_False_errors)

theorem mode_separation_witness:
  "fst (validate False (example_config ''trace'' JUndefined)) = [] \<and>
   snd (validate True (example_config ''trace'' JUndefined)) = [] \<and>
   fst (validate True (example_config ''trace'' JUndefined)) \<noteq> []"
proof -
  have "fst (validate True (example_config ''trace'' JUndefined)) \<noteq> []"
    by code_simp
  then show ?thesis
    using mode_separation[of "example_config ''trace'' JUndefined"] by blast
qed

text \<open>
  C1 (area by engine). Let \<open>v\<close> be an image-parameter object whose width, height and
  engine identifier are \<open>val\<close>. If the image sub-config is accepted without any issue,
  the area \<open>width * height\<close> lies in \<open>[589824, 1048576]\<close> when the engine identifier
  contains \<open>768\<close> and in \<open>[262144, 1048576]\<close> when it does not. When every field of
  the object has the right type and the sides are integers, the message of the 768 rule
  is reported at the path of the object exactly when the identifier contains \<open>768\<close> and
  the area is outside \<open>[589824, 1048576]\<close>, and the message of the other rule exactly
  when the identifier does not contain \<open>768\<close> and the area is outside
  \<open>[262144, 1048576]\<close>; both bounds of each interval are accepted. For any sides, the
  two messages depend in this way on the rounded product that the code compares, and
  neither message is reported when the area lies in the interval of the engine (an
  object with a side that is not an integer is rejected by the multiple-of-64 rule in
  any case).
\<close>

theorem area_by_engine_rule:
  assumes "as_size_value v = Some val"
  shows "(snd (parse stabilityai_image p v) = [] \<longrightarrow>
            (if sublist ''768'' (engine_id val)
             then 589824 \<le> width val * height val \<and> width val * height val \<le> 1048576
             else 262144 \<le> width val * height val \<and> width val * height val \<le> 1048576)) \<and>
         (image_fields_typed v \<and> is_integer (width val) \<and> is_integer (height val) \<longrightarrow>
            (\<lparr>path = p, message = msg_768\<rparr> \<in> set (snd (parse stabilityai_image p v)) \<longleftrightarrow>
               sublist ''768'' (engine_id val) \<and>
               \<not> (589824 \<le> width val * height val \<and> width val * height val \<le> 1048576)) \<and>
            (\<lparr>path = p, message = msg_other\<rparr> \<in> set (snd (parse stabilityai_image p v)) \<longleftrightarrow>
               \<not> sublist ''768'' (engine_id val) \<and>
               \<not> (262144 \<le> width val * height val \<and> width val * height val \<le> 1048576))) \<and>
         (image_fields_typed v \<longrightarrow>
            (\<lparr>path = p, message = msg_768\<rparr> \<in> set (snd (parse stabilityai_image p v)) \<longleftrightarrow>
               sublist ''768'' (engine_id val) \<and>
               (js_less (js_mul (width val) (height val)) 589824 \<or>
                js_greater (js_mul (width val) (height val)) 1048576)) \<and>
            (\<lparr>path = p, message = msg_other\<rparr> \<in> set (snd (parse stabilityai_image p v)) \<longleftrightarrow>
               \<not> sublist ''768'' (engine_id val) \<and>
               (js_less (js_mul (width val) (height val)) 262144 \<or>
                js_greater (js_mul (width val) (height val)) 1048576))) \<and>
         (image_fields_typed v \<and>
          (if sublist ''768'' (engine_id val)
           then 589824 \<le> width val * height val \<and> width val * height val \<le> 1048576
           else 262144 \<le> width val * height val \<and> width val * height val \<le> 1048576) \<longrightarrow>
            \<lparr>path = p, message = msg_768\<rparr> \<notin> set (snd (parse stabilityai_image p v)) \<and>
            \<lparr>path = p, message = msg_other\<rparr> \<notin> set (snd (parse stabilityai_image p v)))"
proof -
  have nf: "v \<noteq> JBool False"
    using assms by (auto simp: as_size_value_def)
  have s1: "on_size validateSizeFor768 v = validateSizeFor768 val"
    and s2: "on_size validateSizeForOtherEngines v = validateSizeForOtherEngines val"
    and s3: "on_size multiplesOf64 v = multiplesOf64 val"
    using assms by (simp_all add: on_size_def)
  have m1: "\<lparr>path = p, message = msg_768\<rparr> \<in> set (snd (parse stabilityai_image p v)) \<longleftrightarrow>
              \<not> validateSizeFor768 val"
    and m2: "\<lparr>path = p, message = msg_other\<rparr> \<in> set (snd (parse stabilityai_image p v)) \<longleftrightarrow>
              \<not> validateSizeForOtherEngines val"
    if "image_fields_typed v"
  proof -
    have na: "fst (parse stabilityai_image_object p v) \<noteq> Aborted"
      using that by (simp add: image_object_typed)
    show "\<lparr>path = p, message = msg_768\<rparr> \<in> set (snd (parse stabilityai_image p v)) \<longleftrightarrow>
              \<not> validateSizeFor768 val"
      by (simp add: image_member[OF na] cross_field_member s1)
    show "\<lparr>path = p, message = msg_other\<rparr> \<in> set (snd (parse stabilityai_image p v)) \<longleftrightarrow>
              \<not> validateSizeForOtherEngines val"
      by (simp add: image_member[OF na] cross_field_member s2)
  qed
  have a: "if sublist ''768'' (engine_id val)
           then 589824 \<le> width val * height val \<and> width val * height val \<le> 1048576
           else 262144 \<le> width val * height val \<and> width val * height val \<le> 1048576"
    if acc: "snd (parse stabilityai_image p v) = []"
  proof -
    from acc nf have r: "multiplesOf64 val" "validateSizeFor768 val"
      "validateSizeForOtherEngines val"
      by (simp_all add: image_no_issues s1 s2 s3)
    from r(1) have i: "is_integer (width val)" "is_integer (height val)"
      by (simp_all add: multiplesOf64_def js_rem_64_integer)
    show ?thesis
      using r(2,3) unfolding size_768_int[OF i] size_other_int[OF i] by (cases "sublist ''768'' (engine_id val)") simp_all
  qed
  have b: "(\<lparr>path = p, message = msg_768\<rparr> \<in> set (snd (parse stabilityai_image p v)) \<longleftrightarrow>
               sublist ''768'' (engine_id val) \<and>
               \<not> (589824 \<le> width val * height val \<and> width val * height val \<le> 1048576)) \<and>
            (\<lparr>path = p, message = msg_other\<rparr> \<in> set (snd (parse stabilityai_image p v)) \<longleftrightarrow>
               \<not> sublist ''768'' (engine_id val) \<and>
               \<not> (262144 \<le> width val * height val \<and> width val * height val \<le> 1048576))"
    if "image_fields_typed v" "is_integer (width val)" "is_integer (height val)"
    unfolding m1[OF that(1)] m2[OF that(1)] size_768_int[OF that(2,3)] size_other_int[OF that(2,3)]
    by blast
  have c: "(\<lparr>path = p, message = msg_768\<rparr> \<in> set (snd (parse stabilityai_image p v)) \<longleftrightarrow>
               sublist ''768'' (engine_id val) \<and>
               (js_less (js_mul (width val) (height val)) 589824 \<or>
                js_greater (js_mul (width val) (height val)) 1048576)) \<and>
            (\<lparr>path = p, message = msg_other\<rparr> \<in> set (snd (parse stabilityai_image p v)) \<longleftrightarrow>
               \<not> sublist ''768'' (engine_id val) \<and>
               (js_less (js_mul (width val) (height val)) 262144 \<or>
                js_greater (js_mul (width val) (height val)) 1048576))"
    if "image_fields_typed v"
    unfolding m1[OF that] m2[OF that]
    by (simp add: validateSizeFor768_def validateSizeForOtherEngines_def Let_def
          str_includes_sublist)
  have d: "\<lparr>path = p, message = msg_768\<rparr> \<notin> set (snd (parse stabilityai_image p v)) \<and>
           \<lparr>path = p, message = msg_other\<rparr> \<notin> set (snd (parse stabilityai_image p v))"
    if "image_fields_typed v"
      "if sublist ''768'' (engine_id val)
       then 589824 \<le> width val * height val \<and> width val * height val \<le> 1048576
       else 262144 \<le> width val * height val \<and> width val * height val \<le> 1048576"
    unfolding m1[OF that(1)] m2[OF that(1)] using size_within[OF that(2)] by blast
  show ?thesis using a b c d by blast
qed

theorem area_by_engine_rule_witness:
  "\<lparr>path = image_path, message = msg_768\<rparr> \<in>
     set (snd (parse stabilityai_image image_path
                 (example_image ''stable-diffusion-768-v2-1'' 512 512 (JNum 30)))) \<and>
   \<lparr>path = image_path, message = msg_other\<rparr> \<notin>
     set (snd (parse stabilityai_image image_path
                 (example_image ''stable-diffusion-768-v2-1'' 512 512 (JNum 30)))) \<and>
   \<lparr>path = image_path, message = msg_768\<rparr> \<notin>
     set (snd (parse stabilityai_image image_path
                 (example_image ''stable-diffusion-768-v2-1'' 768 768 (JNum 30)))) \<and>
   \<lparr>path = image_path, message = msg_other\<rparr> \<in>
     set (snd (parse stabilityai_image image_path
                 (example_image ''stable-diffusion-v1-6'' 256 256 (JNum 30)))) \<and>
   \<lparr>path = image_path, message = msg_768\<rparr> \<notin>
     set (snd (parse stabilityai_image image_path
                 (example_image ''stable-diffusion-v1-6'' 256 256 (JNum 30)))) \<and>
   \<lparr>path = image_path, message = msg_768\<rparr> \<notin>
     set (snd (parse stabilityai_image image_path
                 (example_image ''stable-diffusion-768-v2-1'' 3
                    (3002399751580331 / 8589934592) (JNum 30)))) \<and>
   \<lparr>path = image_path, message = msg_768\<rparr> \<notin>
     set (snd (parse stabilityai_image image_path
                 (example_image ''stable-diffusion-768-v2-1'' (1 / 2) 1179648 (JNum 30))))"
proof -
  let ?e = "example_image ''stable-diffusion-768-v2-1'' (1 / 2) 1179648 (JNum 30)"
  let ?ve = "\<lparr>width = 1 / 2, height = 1179648, engine_id = ''stable-diffusion-768-v2-1''\<rparr>"
  have se: "as_size_value ?e = Some ?ve"
    by (simp add: as_size_value_def example_image_def)
  have te: "image_fields_typed ?e"
    by code_simp
  have e5: "sublist ''768'' (engine_id ?ve)"
    by code_simp
  have re: "if sublist ''768'' (engine_id ?ve)
            then 589824 \<le> width ?ve * height ?ve \<and> width ?ve * height ?ve \<le> 1048576
            else 262144 \<le> width ?ve * height ?ve \<and> width ?ve * height ?ve \<le> 1048576"
    using e5 by simp
  have w5: "\<lparr>path = image_path, message = msg_768\<rparr> \<notin>
              set (snd (parse stabilityai_image image_path ?e))"
    using area_by_engine_rule[OF se, of image_path] te re by blast
  let ?a = "example_image ''stable-diffusion-768-v2-1'' 512 512 (JNum 30)"
  let ?va = "\<lparr>width = 512, height = 512, engine_id = ''stable-diffusion-768-v2-1''\<rparr>"
  let ?b = "example_image ''stable-diffusion-768-v2-1'' 768 768 (JNum 30)"
  let ?vb = "\<lparr>width = 768, height = 768, engine_id = ''stable-diffusion-768-v2-1''\<rparr>"
  let ?c = "example_image ''stable-diffusion-v1-6'' 256 256 (JNum 30)"
  let ?vc = "\<lparr>width = 256, height = 256, engine_id = ''stable-diffusion-v1-6''\<rparr>"
  let ?d = "example_image ''stable-diffusion-768-v2-1'' 3 (3002399751580331 / 8589934592) (JNum 30)"
  let ?vd = "\<lparr>width = 3, height = 3002399751580331 / 8589934592,
              engine_id = ''stable-diffusion-768-v2-1''\<rparr>"
  have sa: "as_size_value ?a = Some ?va" and sb: "as_size_value ?b = Some ?vb"
    and sc: "as_size_value ?c = Some ?vc" and sd: "as_size_value ?d = Some ?vd"
    by (simp_all add: as_size_value_def example_image_def)
  have ta: "image_fields_typed ?a" and tb: "image_fields_typed ?b"
    and tc: "image_fields_typed ?c" and td: "image_fields_typed ?d"
    by code_simp+
  have ia: "is_integer (width ?va) \<and> is_integer (height ?va)"
    and ib: "is_integer (width ?vb) \<and> is_integer (height ?vb)"
    and ic: "is_integer (width ?vc) \<and> is_integer (height ?vc)"
    by (simp_all add: is_integer_def)
  have e1: "sublist ''768'' (engine_id ?va)" and e2: "sublist ''768'' (engine_id ?vb)"
    and e3: "\<not> sublist ''768'' (engine_id ?vc)"
    by code_simp+
  have ra: "\<not> (589824 \<le> width ?va * height ?va \<and> width ?va * height ?va \<le> 1048576)"
    and rb: "589824 \<le> width ?vb * height ?vb \<and> width ?vb * height ?vb \<le> 1048576"
    and rc: "\<not> (262144 \<le> width ?vc * height ?vc \<and> width ?vc * height ?vc \<le> 1048576)"
    by simp_all
  have rd: "\<not> (js_less (js_mul (width ?vd) (height ?vd)) 589824 \<or>
                js_greater (js_mul (width ?vd) (height ?vd)) 1048576)"
    by code_simp
  have w1: "\<lparr>path = image_path, message = msg_768\<rparr> \<in>
              set (snd (parse stabilityai_image image_path ?a)) \<and>
            \<lparr>path = image_path, message = msg_other\<rparr> \<notin>
              set (snd (parse stabilityai_image image_path ?a))"
    using area_by_engine_rule[OF sa, of image_path] ta ia e1 ra by blast
  have w2: "\<lparr>path = image_path, message = msg_768\<rparr> \<notin>
              set (snd (parse stabilityai_image image_path ?b))"
    using area_by_engine_rule[OF sb, of image_path] tb ib e2 rb by blast
  have w3: "\<lparr>path = image_path, message = msg_other\<rparr> \<in>
              set (snd (parse stabilityai_image image_path ?c)) \<and>
            \<lparr>path = image_path, message = msg_768\<rparr> \<notin>
              set (snd (parse stabilityai_image image_path ?c))"
    using area_by_engine_rule[OF sc, of image_path] tc ic e3 rc by blast
  have w4: "\<lparr>path = image_path, message = msg_768\<rparr> \<notin>
              set (snd (parse stabilityai_image image_path ?d))"
    using area_by_engine_rule[OF sd, of image_path] td rd by blast
  show ?thesis using w1 w2 w3 w4 w5 by blast
qed

text \<open>
  C2 (multiples of 64). Let \<open>v\<close> be an image-parameter object whose width, height and
  engine identifier are \<open>val\<close>. If the image sub-config is accepted without any issue,
  width and height are both integer multiples of 64. When every field of the object has
  the right type, the message of the rule is reported at the path of the object exactly when
  width or height is not a multiple of 64. With width 100 and height 768 the image
  sub-config is never accepted, whatever the engine identifier and the other fields are;
  with width 768 and height 768 the predicate of the rule holds.
\<close>

theorem multiple_of_64_rule:
  assumes "as_size_value v = Some val"
  shows "(snd (parse stabilityai_image p v) = [] \<longrightarrow>
            (\<exists>i j::int. width val = of_int (64 * i) \<and> height val = of_int (64 * j))) \<and>
         (image_fields_typed v \<longrightarrow>
            (\<lparr>path = p, message = msg_multiples\<rparr> \<in> set (snd (parse stabilityai_image p v)) \<longleftrightarrow>
               \<not> (\<exists>i j::int. width val = of_int (64 * i) \<and> height val = of_int (64 * j)))) \<and>
         (width val = 100 \<and> height val = 768 \<longrightarrow> snd (parse stabilityai_image p v) \<noteq> []) \<and>
         (width val = 768 \<and> height val = 768 \<longrightarrow> on_size multiplesOf64 v)"
proof -
  have nf: "v \<noteq> JBool False"
    using assms by (auto simp: as_size_value_def)
  have a: "on_size multiplesOf64 v \<longleftrightarrow>
             (\<exists>i j::int. width val = of_int (64 * i) \<and> height val = of_int (64 * j))"
    using assms by (auto simp: on_size_def multiplesOf64_def js_rem_64)
  have d: "width val = 100 \<Longrightarrow> \<not> on_size multiplesOf64 v"
    using assms js_rem_100 by (simp add: on_size_def multiplesOf64_def)
  have e: "width val = 768 \<and> height val = 768 \<Longrightarrow> on_size multiplesOf64 v"
    using assms js_rem_768 by (simp add: on_size_def multiplesOf64_def)
  have t: "image_fields_typed v \<Longrightarrow> fst (parse stabilityai_image_object p v) \<noteq> Aborted"
    by (simp add: image_object_typed)
  show ?thesis
    using nf a d e t by (auto simp: image_no_issues image_member cross_field_member)
qed

theorem multiple_of_64_rule_witness:
  "as_size_value (example_image ''stable-diffusion-v1-6'' 100 768 (JNum 30)) =
     Some \<lparr>width = 100, height = 768, engine_id = ''stable-diffusion-v1-6''\<rparr> \<and>
   image_fields_typed (example_image ''stable-diffusion-v1-6'' 100 768 (JNum 30)) \<and>
   snd (parse stabilityai_image image_path
          (example_image ''stable-diffusion-v1-6'' 100 768 (JNum 30))) \<noteq> []"
proof -
  let ?v = "example_image ''stable-diffusion-v1-6'' 100 768 (JNum 30)"
  let ?val = "\<lparr>width = 100, height = 768, engine_id = ''stable-diffusion-v1-6''\<rparr>"
  have h1: "as_size_value ?v = Some ?val"
    by (simp add: as_size_value_def example_image_def)
  have h2: "image_fields_typed ?v"
    by code_simp
  have h3: "width ?val = 100 \<and> height ?val = 768"
    by simp
  show ?thesis
    using multiple_of_64_rule[OF h1, of image_path] h1 h2 h3 by blast
qed

text \<open>
  C6 (disabled sentinel). When the \<open>image\<close> property of the image-generation
  provider section is \<open>false\<close>, the union accepts it as valid and adds no issue, and
  no issue of the whole configuration lies at or below the path \<open>stabilityai.image\<close>:
  no field rule and no cross-field rule is raised for that sub-config, whatever the rest
  of the configuration contains.
\<close>

theorem disabled_sentinel_bypass:
  assumes "get kvs ''stabilityai'' = JObj skvs" and "get skvs ''image'' = JBool False"
  shows "parse stabilityai_image image_path (get skvs ''image'') = (Valid, []) \<and>
         (\<forall>e\<in>set (snd (parse schema [] (JObj kvs))). \<not> prefix image_path (path e))"
proof -
  have a: "parse stabilityai_image image_path (get skvs ''image'') = (Valid, [])"
    using assms(2) by (simp add: stabilityai_image_def parse_union_or_false)
  have "\<not> prefix image_path (path e)" if "e \<in> set (snd (parse schema [] (JObj kvs)))" for e
    using image_issue_origin[OF that _ assms(1)] a by auto
  with a show ?thesis by blast
qed

theorem disabled_sentinel_bypass_witness:
  "parse stabilityai_image image_path
     (get [(''key'', JNum 1), (''image'', JBool False)] ''image'') = (Valid, []) \<and>
   list_all (\<lambda>e. \<not> prefix image_path (path e))
     (snd (parse schema []
        (JObj [(''telemetry'', JStr ''yes''),
               (''stabilityai'', JObj [(''key'', JNum 1), (''image'', JBool False)])])))"
proof -
  have h1: "get [(''telemetry'', JStr ''yes''),
                 (''stabilityai'', JObj [(''key'', JNum 1), (''image'', JBool False)])]
       ''stabilityai'' = JObj [(''key'', JNum 1), (''image'', JBool False)]"
    by simp
  have h2: "get [(''key'', JNum 1), (''image'', JBool False)] ''image'' = JBool False"
    by simp
  show ?thesis
    unfolding list_all_iff using disabled_sentinel_bypass[OF h1 h2] by blast
qed

text \<open>
  C10 (paths of the cross-field issues). Let \<open>v\<close> be the \<open>image\<close> property of the
  provider section. When every field of \<open>v\<close> has the right type, each cross-field rule
  that \<open>v\<close> fails puts its message, in lower case, into the array returned by
  \<open>validate True\<close> under the path \<open>stabilityai.image\<close> of the object as a whole. And
  whatever \<open>v\<close> is, no issue of the configuration has the path of the width or of the
  height field.
\<close>

theorem cross_field_violation_paths:
  assumes prov: "get kvs ''stabilityai'' = JObj skvs"
    and img: "get skvs ''image'' = v"
  shows "(image_fields_typed v \<and> \<not> on_size multiplesOf64 v \<longrightarrow>
            ''stabilityai.image: width and height must be multiples of 64''
              \<in> set (fst (validate True (JObj kvs)))) \<and>
         (image_fields_typed v \<and> \<not> on_size validateSizeFor768 v \<longrightarrow>
            ''stabilityai.image: size must be between 589,824 (768x768) and 1,048,576 (1024x1024) for engine_id containing 768''
              \<in> set (fst (validate True (JObj kvs)))) \<and>
         (image_fields_typed v \<and> \<not> on_size validateSizeForOtherEngines v \<longrightarrow>
            ''stabilityai.image: size must be between 262,144 (512x512) and 1,048,576 (1024x1024) for other engine_ids''
              \<in> set (fst (validate True (JObj kvs)))) \<and>
         (\<forall>e\<in>set (snd (parse schema [] (JObj kvs))).
            path e \<noteq> image_path @ [Key ''width''] \<and> path e \<noteq> image_path @ [Key ''height''])"
proof -
  have rep: "e \<in> set (cross_field_issues image_path v) \<Longrightarrow>
               issue_message e \<in> set (fst (validate True (JObj kvs)))"
    if "image_fields_typed v" for e
  proof -
    have na: "fst (parse stabilityai_image_object image_path v) \<noteq> Aborted"
      using that by (simp add: image_object_typed)
    have "set (cross_field_issues image_path v) \<subseteq> set (snd (parse schema [] (JObj kvs)))"
      using image_issues_reported[OF prov] img image_issues[OF na] by auto
    then show "e \<in> set (cross_field_issues image_path v) \<Longrightarrow>
               issue_message e \<in> set (fst (validate True (JObj kvs)))"
      using validate_member by blast
  qed
  have a: "image_fields_typed v \<and> \<not> on_size multiplesOf64 v \<longrightarrow>
            ''stabilityai.image: width and height must be multiples of 64''
              \<in> set (fst (validate True (JObj kvs)))"
    using rep[of "\<lparr>path = image_path, message = msg_multiples\<rparr>"]
    by (simp add: cross_field_member message_multiples)
  have b: "image_fields_typed v \<and> \<not> on_size validateSizeFor768 v \<longrightarrow>
            ''stabilityai.image: size must be between 589,824 (768x768) and 1,048,576 (1024x1024) for engine_id containing 768''
              \<in> set (fst (validate True (JObj kvs)))"
    using rep[of "\<lparr>path = image_path, message = msg_768\<rparr>"]
    by (simp add: cross_field_member message_768)
  have c: "image_fields_typed v \<and> \<not> on_size validateSizeForOtherEngines v \<longrightarrow>
            ''stabilityai.image: size must be between 262,144 (512x512) and 1,048,576 (1024x1024) for other engine_ids''
              \<in> set (fst (validate True (JObj kvs)))"
    using rep[of "\<lparr>path = image_path, message = msg_other\<rparr>"]
    by (simp add: cross_field_member message_other)
  have d: "path e \<noteq> image_path @ [Key ''width''] \<and> path e \<noteq> image_path @ [Key ''height'']"
    if e: "e \<in> set (snd (parse schema [] (JObj kvs)))" for e
  proof (cases "prefix image_path (path e)")
    case True
    then have m: "e \<in> set (snd (parse stabilityai_image image_path v))"
      using image_issue_origin[OF e _ prov] img by simp
    show ?thesis
    proof (cases "fst (parse stabilityai_image_object image_path v) = Aborted")
      case na: False
      then show ?thesis using no_width_height_issue[OF na m] by blast
    next
      case ab: True
      have "v \<noteq> JBool False" using m by (auto simp: stabilityai_image_def parse_union_or_false)
      then have "e = invalid_union image_path"
        using m image_aborted[OF ab] by simp
      then show ?thesis by (simp add: invalid_union_def)
    qed
  next
    case False
    then show ?thesis by (auto simp: prefix_def)
  qed
  show ?thesis using a b c d by blast
qed

theorem cross_field_violation_paths_witness:
  "''stabilityai.image: width and height must be multiples of 64''
     \<in> set (fst (validate True
          (JObj (example_fields ''info''
             (JObj (example_provider
                (example_image ''stable-diffusion-v1-6'' 100 768 (JNum 30))))))))"
proof -
  let ?v = "example_image ''stable-diffusion-v1-6'' 100 768 (JNum 30)"
  have h1: "get (example_fields ''info'' (JObj (example_provider ?v))) ''stabilityai'' =
              JObj (example_provider ?v)"
    by (simp add: example_fields_def)
  have h2: "get (example_provider ?v) ''image'' = ?v"
    by (simp add: example_provider_def)
  have h3: "image_fields_typed ?v"
    by code_simp
  have h4: "\<not> on_size multiplesOf64 ?v"
    using js_rem_100
    by (simp add: on_size_def as_size_value_def example_image_def multiplesOf64_def)
  show ?thesis
    using cross_field_violation_paths[OF h1 h2] h3 h4 by blast
qed

text \<open>
  C8 (log level and message format). When the log level is \<open>trace\<close> and every other
  section of the configuration is accepted, \<open>validate True\<close> returns exactly one
  message: the path \<open>logs.level\<close>, a colon and a space, and the message of the
  enumeration in lower case. For every configuration, each returned message is the path
  of an issue, its segments joined by dots, then a colon and a space, then the message
  of the issue in lower case: the same characters, with each of the letters A to Z
  replaced by its lower-case letter.
\<close>

theorem log_level_trace:
  assumes logs: "get kvs ''logs'' = JObj lkvs"
    and level: "get lkvs ''level'' = JStr ''trace''"
    and rest: "\<forall>ks\<in>set schema_shape. fst ks \<noteq> ''logs'' \<longrightarrow>
                 snd (parse (snd ks) [Key (fst ks)] (get kvs (fst ks))) = []"
  shows "fst (validate True (JObj kvs)) =
           [''logs.level: invalid enum value. expected 'silent' | 'error' | 'warn' | 'info' | 'http' | 'verbose' | 'debug' | 'silly', received 'trace'' @ [CHR 0x27]] \<and>
         (\<forall>c. fst (validate True c) =
            map (\<lambda>e. path_join (path e) @ '': '' @ toLowerCase (message e))
              (snd (parse schema [] c))) \<and>
         (\<forall>s. length (toLowerCase s) = length s \<and>
            (\<forall>i<length s. (of_char (toLowerCase s ! i) :: nat) =
               (if 65 \<le> (of_char (s ! i) :: nat) \<and> (of_char (s ! i) :: nat) \<le> 90
                then of_char (s ! i) + 32 else of_char (s ! i)))) \<and>
         toLowerCase ''Invalid enum value. Expected A-Z'' = ''invalid enum value. expected a-z'' \<and>
         path_join [Key ''a'', Key ''b'', Idx 0] = ''a.b.0''"
proof -
  have sec: "snd (parse (snd ks) [Key (fst ks)] (get kvs (fst ks))) =
               (if fst ks = ''logs''
                then [invalid_enum_value [Key ''logs'', Key ''level''] log_levels ''trace'']
                else [])" if "ks \<in> set schema_shape" for ks
    using that rest logs_entry[OF that] logs_trace_issues[OF logs level] by auto
  have "snd (parse schema [] (JObj kvs)) =
          concat (map (\<lambda>ks. if fst ks = ''logs''
                then [invalid_enum_value [Key ''logs'', Key ''level''] log_levels ''trace'']
                else []) schema_shape)"
    unfolding schema_issues using sec by (auto intro!: arg_cong[where f=concat])
  also have "\<dots> = [invalid_enum_value [Key ''logs'', Key ''level''] log_levels ''trace'']"
    by (simp add: schema_shape_def)
  finally have iss: "snd (parse schema [] (JObj kvs)) =
      [invalid_enum_value [Key ''logs'', Key ''level''] log_levels ''trace'']" .
  have pj: "path_join [Key ''logs'', Key ''level''] = ''logs.level''"
    by (simp add: path_join_def)
  have "fst (validate True (JObj kvs)) =
           [''logs.level: '' @
              toLowerCase (message (invalid_enum_value [Key ''logs'', Key ''level''] log_levels ''trace''))]"
    using pj by (simp add: validate_True iss issue_message_def invalid_enum_value_def)
  then have a: "fst (validate True (JObj kvs)) =
           [''logs.level: invalid enum value. expected 'silent' | 'error' | 'warn' | 'info' | 'http' | 'verbose' | 'debug' | 'silly', received 'trace'' @ [CHR 0x27]]"
    by (simp only: trace_message)
  have b: "\<forall>c. fst (validate True c) =
            map (\<lambda>e. path_join (path e) @ '': '' @ toLowerCase (message e))
              (snd (parse schema [] c))"
    by (simp add: validate_True issue_message_def)
  have c: "\<forall>s. length (toLowerCase s) = length s \<and>
            (\<forall>i<length s. (of_char (toLowerCase s ! i) :: nat) =
               (if 65 \<le> (of_char (s ! i) :: nat) \<and> (of_char (s ! i) :: nat) \<le> 90
                then of_char (s ! i) + 32 else of_char (s ! i)))"
    by (simp add: toLowerCase_def lower_char_code)
  have d: "toLowerCase ''Invalid enum value. Expected A-Z'' = ''invalid enum value. expected a-z''"
    by code_simp
  have e: "path_join [Key ''a'', Key ''b'', Idx 0] = ''a.b.0''"
    by code_simp
  show ?thesis using a b c d e by blast
qed

theorem log_level_trace_witness:
  "fst (validate True (JObj (example_fields ''trace'' JUndefined))) =
     [''logs.level: invalid enum value. expected 'silent' | 'error' | 'warn' | 'info' | 'http' | 'verbose' | 'debug' | 'silly', received 'trace'' @ [CHR 0x27]]"
proof -
  have h1: "get (example_fields ''trace'' JUndefined) ''logs'' = JObj [(''level'', JStr ''trace'')]"
    by (simp add: example_fields_def)
  have h2: "get [(''level'', JStr ''trace'')] ''level'' = JStr ''trace''"
    by simp
  have h3: "\<forall>ks\<in>set schema_shape. fst ks \<noteq> ''logs'' \<longrightarrow>
      snd (parse (snd ks) [Key (fst ks)] (get (example_fields ''trace'' JUndefined) (fst ks))) = []"
    by code_simp
  show ?thesis
    using log_level_trace[OF h1 h2 h3] by blast
qed




text \<open>
  C4 (exhaustive reporting), as the code has it. A configuration in which the timeout of
  the image parameters is a string and the width is 100 breaks a field rule and the
  multiple-of-64 rule, yet \<open>validate True\<close> returns the single message
  \<open>stabilityai.image: invalid input\<close>: the union collapses the issues of an option
  that aborted, and the refinements did not run.
\<close>

theorem exhaustive_reporting_counterexample:
  "fst (validate True (example_config ''info''
     (JObj (example_provider (example_image ''stable-diffusion-v1-6'' 100 768 (JStr ''60'')))))) =
     [''stabilityai.image: invalid input''] \<and>
   \<not> on_size multiplesOf64 (example_image ''stable-diffusion-v1-6'' 100 768 (JStr ''60'')) \<and>
   snd (parse (ZNumber []) (image_path @ [Key ''timeout'']) (JStr ''60'')) \<noteq> []"
  by code_simp

text \<open>
  C4, amended. The returned messages are those of the issues of every section of
  the configuration, in the order of the schema, and an object reports the issues of
  every one of its fields: nothing stops at the first failure. For image parameters
  whose fields have the right types (a string, six numbers, styles of the enumeration),
  every range issue and the message of every violated cross-field rule are reported
  together. When a field has a wrong type, the image sub-config has the single issue
  \<open>Invalid input\<close> at its own path.
\<close>

theorem exhaustive_reporting:
  "fst (validate True (JObj kvs)) =
     map issue_message
       (concat (map (\<lambda>ks. snd (parse (snd ks) [Key (fst ks)] (get kvs (fst ks)))) schema_shape)) \<and>
   snd (parse (ZObject shape) p (JObj fkvs)) =
     concat (map (\<lambda>ks. snd (parse (snd ks) (p @ [Key (fst ks)]) (get fkvs (fst ks)))) shape) \<and>
   (image_fields_typed v \<longrightarrow>
      snd (parse stabilityai_image p v) =
        snd (parse stabilityai_image_object p v) @ cross_field_issues p v) \<and>
   (\<not> image_fields_typed v \<and> v \<noteq> JBool False \<longrightarrow>
      snd (parse stabilityai_image p v) = [invalid_union p])"
proof -
  have a: "fst (validate True (JObj kvs)) =
     map issue_message
       (concat (map (\<lambda>ks. snd (parse (snd ks) [Key (fst ks)] (get kvs (fst ks)))) schema_shape))"
    by (simp add: validate_True schema_issues)
  have b: "snd (parse (ZObject shape) p (JObj fkvs)) =
     concat (map (\<lambda>ks. snd (parse (snd ks) (p @ [Key (fst ks)]) (get fkvs (fst ks)))) shape)"
    by (simp add: parse_shape_issues)
  have c: "image_fields_typed v \<longrightarrow>
      snd (parse stabilityai_image p v) =
        snd (parse stabilityai_image_object p v) @ cross_field_issues p v"
    using image_issues[of p v] by (simp add: image_object_typed)
  have d: "\<not> image_fields_typed v \<and> v \<noteq> JBool False \<longrightarrow>
      snd (parse stabilityai_image p v) = [invalid_union p]"
    using image_aborted[of p v] image_object_typed[of p v] by auto
  show ?thesis using a b c d by blast
qed

theorem exhaustive_reporting_witness:
  "fst (validate True (JObj (example_fields ''trace'' (JObj (example_provider overloaded_image))))) =
     [''logs.level: '' @
        toLowerCase (message (invalid_enum_value [Key ''logs'', Key ''level''] log_levels ''trace'')),
      ''stabilityai.image.cfg_scale: number must be less than or equal to 35'',
      ''stabilityai.image.samples: number must be greater than or equal to 1'',
      ''stabilityai.image: width and height must be multiples of 64'',
      ''stabilityai.image: size must be between 262,144 (512x512) and 1,048,576 (1024x1024) for other engine_ids'']"
proof -
  have r: "map issue_message
       (concat (map (\<lambda>ks. snd (parse (snd ks) [Key (fst ks)]
          (get (example_fields ''trace'' (JObj (example_provider overloaded_image))) (fst ks))))
          schema_shape)) =
     [''logs.level: '' @
        toLowerCase (message (invalid_enum_value [Key ''logs'', Key ''level''] log_levels ''trace'')),
      ''stabilityai.image.cfg_scale: number must be less than or equal to 35'',
      ''stabilityai.image.samples: number must be greater than or equal to 1'',
      ''stabilityai.image: width and height must be multiples of 64'',
      ''stabilityai.image: size must be between 262,144 (512x512) and 1,048,576 (1024x1024) for other engine_ids'']"
    by code_simp
  have a: "fst (validate True (JObj (example_fields ''trace'' (JObj (example_provider overloaded_image))))) =
     map issue_message
       (concat (map (\<lambda>ks. snd (parse (snd ks) [Key (fst ks)]
          (get (example_fields ''trace'' (JObj (example_provider overloaded_image))) (fst ks))))
          schema_shape))"
    using exhaustive_reporting[of "example_fields ''trace'' (JObj (example_provider overloaded_image))"]
    by blast
  show ?thesis unfolding a by (rule r)
qed

text \<open>
  C7 (shape of the provider section), as the code has it. The disabled sentinel
  \<open>false\<close> in the place of the whole provider section is rejected: the section must be
  an object when it is present.
\<close>

theorem provider_shape_counterexample:
  "fst (validate True (example_config ''info'' (JBool False))) =
     [''stabilityai: expected object, received boolean'']"
  by code_simp

text \<open>
  C7, amended. The provider section is accepted exactly when it is absent, or
  null, or an object whose \<open>key\<close> is a string and whose \<open>image\<close> is either the
  sentinel \<open>false\<close> or a parameter object that satisfies every field rule and the three
  cross-field rules (further properties of the objects are ignored).
\<close>

theorem provider_shape:
  "snd (parse stabilityai p v) = [] \<longleftrightarrow> provider_accepted v"
proof (cases v)
  case (JObj kvs)
  then show ?thesis
    unfolding stabilityai_def provider_accepted_def no_issues_nullish iff_object
    by (simp add: iff_string image_accepted_iff del: parse.simps)
qed (simp_all add: stabilityai_def provider_accepted_def no_issues_nullish iff_object
       del: parse.simps)

theorem provider_shape_witness:
  "snd (parse stabilityai [Key ''stabilityai''] (JObj (example_provider (JBool False)))) = [] \<and>
   snd (parse stabilityai [Key ''stabilityai''] JNull) = [] \<and>
   snd (parse stabilityai [Key ''stabilityai''] (JBool False)) \<noteq> []"
proof -
  have h1: "provider_accepted (JObj (example_provider (JBool False)))"
    by code_simp
  have h2: "provider_accepted JNull"
    by code_simp
  have h3: "\<not> provider_accepted (JBool False)"
    by code_simp
  show ?thesis
    using provider_shape[of "[Key ''stabilityai'']" "JObj (example_provider (JBool False))"]
      provider_shape[of "[Key ''stabilityai'']" JNull]
      provider_shape[of "[Key ''stabilityai'']" "JBool False"] h1 h2 h3
    by blast
qed

text \<open>
  C9 (types of the numeric image parameters), as the code has it. Image parameters whose
  timeout, samples and steps are the non-integers 30.5, 1.5 and 10.5 are accepted without
  any message: the schema asks for numbers, not for integers.
\<close>

theorem integer_typing_counterexample:
  "get (example_provider fractional_image) ''image'' = fractional_image \<and>
   as_size_value fractional_image =
     Some \<lparr>width = 512, height = 512, engine_id = ''stable-diffusion-v1-6''\<rparr> \<and>
   \<not> number_where is_integer (JNum (61 / 2)) \<and>
   fst (validate True (example_config ''info'' (JObj (example_provider fractional_image)))) = []"
  by code_simp

text \<open>
  C9, amended. Timeout, samples and steps are numbers, not necessarily integers: any
  number is accepted for timeout, a number in 1..10 for samples and a number in 10..50
  for steps, whether it is an integer or not. Width and height are numbers for their
  field rule, but a width or height that is not an integer is always a violation: the
  image sub-config is not accepted, and when every field has the right type the message
  of the multiple-of-64 rule is reported at the path of the object. A value of another
  type for one of the five fields aborts the field with one issue, and the image
  sub-config then has the single issue \<open>Invalid input\<close> at its own path.
\<close>

theorem number_typing:
  "(k \<in> set plain_number_fields \<and> map_of stabilityai_image_shape k = Some s \<longrightarrow>
      (snd (parse s q (JNum x)) = [] \<longleftrightarrow>
         (k = ''samples'' \<longrightarrow> 1 \<le> x \<and> x \<le> 10) \<and>
         (k = ''steps'' \<longrightarrow> 10 \<le> x \<and> x \<le> 50))) \<and>
   (as_size_value w = Some val \<and> \<not> (is_integer (width val) \<and> is_integer (height val)) \<longrightarrow>
      snd (parse stabilityai_image p w) \<noteq> [] \<and>
      (image_fields_typed w \<longrightarrow>
         \<lparr>path = p, message = msg_multiples\<rparr> \<in> set (snd (parse stabilityai_image p w)))) \<and>
   (k \<in> set number_fields \<and> map_of stabilityai_image_shape k = Some s \<and>
    \<not> number_where any_number v \<longrightarrow>
      parse s q v = (Aborted, [invalid_type q ''number'' v])) \<and>
   (k \<in> set number_fields \<and> \<not> number_where any_number (get kvs k) \<longrightarrow>
      parse stabilityai_image p (JObj kvs) = (Aborted, [invalid_union p]))"
proof -
  have s: "s = (if k = ''samples'' then ZNumber [Min 1, Max 10]
                 else if k = ''steps'' then ZNumber [Min 10, Max 50]
                 else ZNumber [])"
    if "k \<in> set number_fields" "map_of stabilityai_image_shape k = Some s"
    using number_field_schema[OF that(1)] that(2) by simp
  have a: "snd (parse s q (JNum x)) = [] \<longleftrightarrow>
         (k = ''samples'' \<longrightarrow> 1 \<le> x \<and> x \<le> 10) \<and>
         (k = ''steps'' \<longrightarrow> 10 \<le> x \<and> x \<le> 50)"
    if "k \<in> set plain_number_fields" "map_of stabilityai_image_shape k = Some s"
    unfolding s[OF plain_number_fields_subset[OF that(1)] that(2)]
    by (simp add: iff_number del: parse.simps)
  have b: "snd (parse stabilityai_image p w) \<noteq> [] \<and>
      (image_fields_typed w \<longrightarrow>
         \<lparr>path = p, message = msg_multiples\<rparr> \<in> set (snd (parse stabilityai_image p w)))"
    if sv: "as_size_value w = Some val"
      and ni: "\<not> (is_integer (width val) \<and> is_integer (height val))"
  proof -
    have nm: "\<not> on_size multiplesOf64 w" using non_integer_side[OF sv ni] .
    have nf: "w \<noteq> JBool False" using sv by (auto simp: as_size_value_def)
    have "snd (parse stabilityai_image p w) \<noteq> []"
      using nm nf by (simp add: image_no_issues)
    moreover have "\<lparr>path = p, message = msg_multiples\<rparr> \<in> set (snd (parse stabilityai_image p w))"
      if "image_fields_typed w"
    proof -
      have na: "fst (parse stabilityai_image_object p w) \<noteq> Aborted"
        using that by (simp add: image_object_typed)
      show ?thesis using nm by (simp add: image_member[OF na] cross_field_member)
    qed
    ultimately show ?thesis by blast
  qed
  have c: "parse s q v = (Aborted, [invalid_type q ''number'' v])"
    if "k \<in> set number_fields"
      "map_of stabilityai_image_shape k = Some s"
      "\<not> number_where any_number v"
    unfolding s[OF that(1,2)]
    using parse_number_wrong_type[OF that(3)] by simp
  have d: "parse stabilityai_image p (JObj kvs) = (Aborted, [invalid_union p])"
    if k: "k \<in> set number_fields"
      and n: "\<not> number_where any_number (get kvs k)"
  proof -
    from number_field_member[OF k] obtain cs
      where m: "(k, ZNumber cs) \<in> set stabilityai_image_shape" by blast
    have "fst (parse (ZNumber cs) (p @ [Key k]) (get kvs k)) = Aborted"
      using n not_aborted_number by blast
    then have "fst (parse_shape stabilityai_image_shape p kvs) = Aborted"
      unfolding parse_shape_Aborted using m by force
    then have "fst (parse stabilityai_image_object p (JObj kvs)) = Aborted"
      by (simp add: stabilityai_image_object_def)
    then show ?thesis by (rule image_aborted) simp
  qed
  show ?thesis using a b c d by blast
qed

theorem number_typing_witness:
  "snd (parse (ZNumber [Min 1, Max 10]) (image_path @ [Key ''samples'']) (JNum (3 / 2))) = [] \<and>
   parse (ZNumber [Min 1, Max 10]) (image_path @ [Key ''samples'']) (JStr ''2'') =
     (Aborted, [invalid_type (image_path @ [Key ''samples'']) ''number'' (JStr ''2'')]) \<and>
   \<lparr>path = image_path, message = msg_multiples\<rparr> \<in>
     set (snd (parse stabilityai_image image_path
                 (example_image ''stable-diffusion-v1-6'' (1025 / 2) 512 (JNum 30))))"
proof -
  let ?w = "example_image ''stable-diffusion-v1-6'' (1025 / 2) 512 (JNum 30)"
  let ?val = "\<lparr>width = 1025 / 2, height = 512, engine_id = ''stable-diffusion-v1-6''\<rparr>"
  have h1: "''samples'' \<in> set plain_number_fields"
    by (simp add: plain_number_fields_def)
  have h1': "''samples'' \<in> set number_fields"
    by (simp add: number_fields_def)
  have h2: "map_of stabilityai_image_shape ''samples'' = Some (ZNumber [Min 1, Max 10])"
    by (simp add: stabilityai_image_shape_def)
  have h3: "(''samples'' = ''samples'' \<longrightarrow> 1 \<le> (3 / 2 :: rat) \<and> (3 / 2 :: rat) \<le> 10) \<and>
            (''samples'' = ''steps'' \<longrightarrow> 10 \<le> (3 / 2 :: rat) \<and> (3 / 2 :: rat) \<le> 50)"
    by simp
  have h4: "\<not> number_where any_number (JStr ''2'')"
    by simp
  have h5: "as_size_value ?w = Some ?val"
    by (simp add: as_size_value_def example_image_def)
  have h6: "\<not> (is_integer (width ?val) \<and> is_integer (height ?val))"
    by code_simp
  have h7: "image_fields_typed ?w"
    by code_simp
  show ?thesis
    using number_typing[of "''samples''" "ZNumber [Min 1, Max 10]"
        "image_path @ [Key ''samples'']" "3 / 2" ?w ?val image_path "JStr ''2''"]
      h1 h1' h2 h3 h4 h5 h6 h7 by blast
qed

end
